theory Spec2Isabelle
  imports Complex_Main "HOL-Library.Multiset"
begin

section \<open>Map reader: numbers, points and failures\<close>

text \<open>
  The program \<^verbatim>\<open>mapreader.py\<close> finds a red triangular pointer on a map photographed on a
  blue background and prints the position of its tip and its bearing. The image
  operations are OpenCV's; the program's own logic is the ordering of the map corners, the
  size of the rectified map, the choice of the pointer's tip, the bearing and the
  normalised position. That logic is embedded here.

  Numbers. Polygon vertices are rows of 32-bit integers (numpy \<^verbatim>\<open>int32\<close>, read from
  OpenCV contours); \<^verbatim>\<open>order_points\<close> returns rows of single-precision floats. A
  coordinate is an \<^typ>\<open>int\<close>; arithmetic on \<^verbatim>\<open>int32\<close> scalars wraps around, and
  arithmetic on floats rounds to the nearest number of the format, ties to even. The
  exponent range of the float formats is not modelled (the numbers of the program are far
  inside it). An exception is an \<open>Inl\<close> value, and a division of numpy floats by zero gives
  an infinity or a NaN.
\<close>

type_synonym point = "int \<times> int"

text \<open>The value of a 32-bit signed integer after an operation that overflows.\<close>

definition wrap32 :: "int \<Rightarrow> int" where
  "wrap32 k = (k + 2147483648) mod 4294967296 - 2147483648"

text \<open>
  Rounding to a binary floating-point format of precision \<open>p\<close> bits. \<open>rne q\<close> is the
  integer nearest to \<open>q\<close>, the even one of two that are equally near; \<open>float_exp x\<close> is
  the exponent \<open>e\<close> with \<open>2^e \<le> |x| < 2^(e + 1)\<close>; \<open>ulp p x\<close> is the distance between
  neighbouring numbers of the format in the binade of \<open>x\<close>; \<open>fl p x\<close> is the number of
  the format nearest to \<open>x\<close>. Single precision has 24 bits and double precision 53.
\<close>

definition rne :: "real \<Rightarrow> int" where
  "rne q =
     (let n = \<lfloor>q\<rfloor>; r = q - real_of_int n
      in if r < 1 / 2 then n
         else if 1 / 2 < r then n + 1
         else if even n then n else n + 1)"

definition float_exp :: "real \<Rightarrow> int" where
  "float_exp x = \<lfloor>log 2 \<bar>x\<bar>\<rfloor>"

definition ulp :: "nat \<Rightarrow> real \<Rightarrow> real" where
  "ulp p x = 2 powr real_of_int (float_exp x - int p + 1)"

definition fl :: "nat \<Rightarrow> real \<Rightarrow> real" where
  "fl p x = (if x = 0 then 0 else real_of_int (rne (x / ulp p x)) * ulp p x)"

definition fl32 :: "real \<Rightarrow> real" where
  "fl32 x = fl 24 x"

definition fl64 :: "real \<Rightarrow> real" where
  "fl64 x = fl 53 x"

datatype error =
    UnboundLocalError   \<comment> \<open>a local variable read before any assignment\<close>
  | ValueError          \<comment> \<open>\<^verbatim>\<open>argmin\<close>/\<^verbatim>\<open>argmax\<close> of an empty array, a failed unpacking,
                            \<^verbatim>\<open>int\<close> of a NaN\<close>
  | IndexError          \<comment> \<open>an index past the end of an array\<close>
  | ZeroDivisionError   \<comment> \<open>a division by zero\<close>
  | OverflowError       \<comment> \<open>\<^verbatim>\<open>int\<close> of an infinity\<close>
  | NoObjectFound       \<comment> \<open>the empty-scene condition of the specification; no statement of
                            the program raises it\<close>

text \<open>A numpy \<^verbatim>\<open>float64\<close> scalar: a finite number, an infinity or a NaN.\<close>

datatype npfloat = Fin real | PInf | NInf | NaN

text \<open>Division of numpy scalars: a zero divisor gives a signed infinity, or NaN for 0/0.\<close>

definition np_div :: "real \<Rightarrow> real \<Rightarrow> npfloat" where
  "np_div a b =
     (if b \<noteq> 0 then Fin (a / b)
      else if 0 < a then PInf
      else if a < 0 then NInf
      else NaN)"

text \<open>The same division with the quotient rounded to double precision.\<close>

definition np_div64 :: "real \<Rightarrow> real \<Rightarrow> npfloat" where
  "np_div64 a b =
     (if b \<noteq> 0 then Fin (fl64 (a / b))
      else if 0 < a then PInf
      else if a < 0 then NInf
      else NaN)"

text \<open>
  The constant \<^verbatim>\<open>math.pi\<close> is the double nearest to \<open>\<pi>\<close>, and \<^verbatim>\<open>math.degrees(x)\<close> is
  \<^verbatim>\<open>x * (180.0 / math.pi)\<close>. \<^verbatim>\<open>math.atan\<close> is the C library's; it is taken to return the
  double nearest to the arctangent, and the double nearest to \<open>\<pi>/2\<close> at an infinity.
\<close>

definition math_pi :: real where
  "math_pi = fl64 pi"

definition radToDeg :: real where
  "radToDeg = fl64 (180 / math_pi)"

fun math_atan :: "npfloat \<Rightarrow> npfloat" where
  "math_atan (Fin r) = Fin (fl64 (arctan r))"
| "math_atan PInf = Fin (fl64 (pi / 2))"
| "math_atan NInf = Fin (fl64 (- (pi / 2)))"
| "math_atan NaN = NaN"

fun np_abs :: "npfloat \<Rightarrow> npfloat" where
  "np_abs (Fin r) = Fin \<bar>r\<bar>"
| "np_abs PInf = PInf"
| "np_abs NInf = PInf"
| "np_abs NaN = NaN"

fun math_degrees :: "npfloat \<Rightarrow> npfloat" where
  "math_degrees (Fin r) = Fin (fl64 (r * radToDeg))"
| "math_degrees PInf = PInf"
| "math_degrees NInf = NInf"
| "math_degrees NaN = NaN"

fun np_add :: "npfloat \<Rightarrow> real \<Rightarrow> npfloat" where
  "np_add (Fin r) c = Fin (fl64 (r + c))"
| "np_add PInf c = PInf"
| "np_add NInf c = NInf"
| "np_add NaN c = NaN"

text \<open>The comparison \<^verbatim>\<open>x < 0\<close>: false for NaN.\<close>

fun np_lt0 :: "npfloat \<Rightarrow> bool" where
  "np_lt0 (Fin r) = (r < 0)"
| "np_lt0 NInf = True"
| "np_lt0 PInf = False"
| "np_lt0 NaN = False"

text \<open>The comparisons \<^verbatim>\<open>x < y\<close> and \<^verbatim>\<open>x == y\<close> of floats: false when either is a NaN.\<close>

fun np_lt :: "npfloat \<Rightarrow> npfloat \<Rightarrow> bool" where
  "np_lt (Fin a) (Fin b) = (a < b)"
| "np_lt NaN y = False"
| "np_lt x NaN = False"
| "np_lt NInf NInf = False"
| "np_lt NInf y = True"
| "np_lt x NInf = False"
| "np_lt PInf y = False"
| "np_lt x PInf = True"

fun np_eq :: "npfloat \<Rightarrow> npfloat \<Rightarrow> bool" where
  "np_eq (Fin a) (Fin b) = (a = b)"
| "np_eq PInf PInf = True"
| "np_eq NInf NInf = True"
| "np_eq x y = False"

text \<open>
  Python's \<^verbatim>\<open>min(a, b, c)\<close>: the first argument, replaced by a later one that compares
  less than it.
\<close>

definition py_min3 :: "npfloat \<Rightarrow> npfloat \<Rightarrow> npfloat \<Rightarrow> npfloat" where
  "py_min3 a b c =
     (let m = a;
          m = (if np_lt b m then b else m);
          m = (if np_lt c m then c else m)
      in m)"

text \<open>Python's \<^verbatim>\<open>int(x)\<close> on a finite float: truncation toward zero.\<close>

definition py_int :: "real \<Rightarrow> int" where
  "py_int r = (if 0 \<le> r then \<lfloor>r\<rfloor> else \<lceil>r\<rceil>)"


text \<open>
  The number that the format \<^verbatim>\<open>%.1f\<close> prints for a finite float: the nearest multiple
  of one tenth.
\<close>

definition format_1f :: "real \<Rightarrow> real" where
  "format_1f x = real_of_int (rne (x * 10)) / 10"

section \<open>The contour extractor\<close>

text \<open>
  \<^verbatim>\<open>find_vertices(image)\<close>. OpenCV's functions are parameters: \<open>findContours\<close> gives the
  external contours of the grey image, \<open>contourArea\<close> and \<open>arcLength\<close> measure a contour and
  \<open>approxPolyDP\<close> simplifies it. The loop keeps the largest area seen so far and the contour
  that has it; \<^verbatim>\<open>big_cntr\<close> has no value before the first assignment.
\<close>

fun largest_contour ::
  "('c \<Rightarrow> real) \<Rightarrow> 'c list \<Rightarrow> real \<times> 'c option \<Rightarrow> real \<times> 'c option" where
  "largest_contour contourArea [] st = st"
| "largest_contour contourArea (c # cs) (area_max, big_cntr) =
     (let area = contourArea c
      in if area > area_max
         then largest_contour contourArea cs (area, Some c)
         else largest_contour contourArea cs (area_max, big_cntr))"

definition find_vertices ::
  "('img \<Rightarrow> 'c list) \<Rightarrow> ('c \<Rightarrow> real) \<Rightarrow> ('c \<Rightarrow> bool \<Rightarrow> real) \<Rightarrow>
   ('c \<Rightarrow> real \<Rightarrow> bool \<Rightarrow> point list) \<Rightarrow> 'img \<Rightarrow> error + point list" where
  "find_vertices findContours contourArea arcLength approxPolyDP im =
     (let contours = findContours im;
          (area_max, big_cntr) = largest_contour contourArea contours (- 1, None)
      in case big_cntr of
           None \<Rightarrow> Inl UnboundLocalError
         | Some c \<Rightarrow>
             (let peri = arcLength c True
              in Inr (approxPolyDP c (0.1 * peri) True)))"

section \<open>The perspective rectifier\<close>

text \<open>
  \<^verbatim>\<open>numpy.argmin\<close> and \<^verbatim>\<open>numpy.argmax\<close>: the index of the first least (greatest) entry;
  an empty array raises \<^verbatim>\<open>ValueError\<close>.
\<close>

fun first_min :: "'a::linorder \<Rightarrow> 'a list \<Rightarrow> nat" where
  "first_min x [] = 0"
| "first_min x (y # ys) =
     (let j = first_min y ys in if x \<le> (y # ys) ! j then 0 else Suc j)"

fun first_max :: "'a::linorder \<Rightarrow> 'a list \<Rightarrow> nat" where
  "first_max x [] = 0"
| "first_max x (y # ys) =
     (let j = first_max y ys in if (y # ys) ! j \<le> x then 0 else Suc j)"

definition argmin :: "'a::linorder list \<Rightarrow> error + nat" where
  "argmin xs = (case xs of [] \<Rightarrow> Inl ValueError | x # r \<Rightarrow> Inr (first_min x r))"

definition argmax :: "'a::linorder list \<Rightarrow> error + nat" where
  "argmax xs = (case xs of [] \<Rightarrow> Inl ValueError | x # r \<Rightarrow> Inr (first_max x r))"

text \<open>
  \<^verbatim>\<open>order_points(points)\<close>. \<^verbatim>\<open>points.sum(axis=1)\<close> is \<open>x + y\<close> of each row and
  \<^verbatim>\<open>numpy.diff(points, axis=1)\<close> is \<open>y - x\<close> of each row. The four rows of
  \<^verbatim>\<open>ordered_list\<close> are written in the order 0, 2, 1, 3. The function is used on integer
  and on floating-point rows, so the coordinates are of any linearly ordered ring.
\<close>

definition order_points ::
  "('a::linordered_idom \<times> 'a) list \<Rightarrow> error + ('a \<times> 'a) list" where
  "order_points points =
     (let ordered_list = replicate 4 (0, 0);
          s = map (\<lambda>p. fst p + snd p) points
      in case argmin s of Inl e \<Rightarrow> Inl e | Inr i0 \<Rightarrow>
         (let ordered_list = ordered_list[0 := points ! i0]
          in case argmax s of Inl e \<Rightarrow> Inl e | Inr i2 \<Rightarrow>
         (let ordered_list = ordered_list[2 := points ! i2];
              diff = map (\<lambda>p. snd p - fst p) points
          in case argmin diff of Inl e \<Rightarrow> Inl e | Inr i1 \<Rightarrow>
         (let ordered_list = ordered_list[1 := points ! i1]
          in case argmax diff of Inl e \<Rightarrow> Inl e | Inr i3 \<Rightarrow>
         Inr (ordered_list[3 := points ! i3])))))"

text \<open>
  \<^verbatim>\<open>distance_of_points(a, b)\<close>, at the two types of rows that the program passes. On
  \<^verbatim>\<open>int32\<close> rows (lines 225 to 227) the differences, the squares and the sum are 32-bit
  integers, and \<^verbatim>\<open>numpy.sqrt\<close> gives a double, a NaN for a negative sum. On
  \<^verbatim>\<open>float32\<close> rows (lines 146 to 151, the rows that \<^verbatim>\<open>order_points\<close> returns) every
  operation rounds to single precision.
\<close>

datatype dtype = Int32 | Float32

definition distance_of_points :: "dtype \<Rightarrow> point \<Rightarrow> point \<Rightarrow> npfloat" where
  "distance_of_points dt a b =
     (case dt of
        Int32 \<Rightarrow>
          (let dx = wrap32 (fst a - fst b);
               dy = wrap32 (snd a - snd b);
               s = wrap32 (wrap32 (dx\<^sup>2) + wrap32 (dy\<^sup>2))
           in if s < 0 then NaN else Fin (fl64 (sqrt (real_of_int s))))
      | Float32 \<Rightarrow>
          (let dx = fl32 (fl32 (real_of_int (fst a)) - fl32 (real_of_int (fst b)));
               dy = fl32 (fl32 (real_of_int (snd a)) - fl32 (real_of_int (snd b)))
           in Fin (fl32 (sqrt (fl32 (fl32 (dx\<^sup>2) + fl32 (dy\<^sup>2)))))))"




section \<open>The marker geometry\<close>

text \<open>\<^verbatim>\<open>get_slope(x1, y1, x2, y2)\<close>; a zero divisor is the \<open>Inl\<close> branch.\<close>

definition get_slope :: "int \<Rightarrow> int \<Rightarrow> int \<Rightarrow> int \<Rightarrow> error + real" where
  "get_slope x1 y1 x2 y2 =
     (let x2 = (if x2 = x1 then x2 + 1 else x2)
      in if x2 - x1 = 0 then Inl ZeroDivisionError
         else Inr (real_of_int (y2 - y1) / real_of_int (x2 - x1)))"

text \<open>
  Lines 212 and 213: the size of the map is read from the third vertex of the polygon
  found in the rectified image.
\<close>

definition map_size :: "point list \<Rightarrow> error + int \<times> int" where
  "map_size warpedPoints =
     (if length warpedPoints \<le> 2 then Inl IndexError
      else Inr (fst (warpedPoints ! 2), snd (warpedPoints ! 2)))"

text \<open>
  Lines 225 to 250: the tip of the pointer and the middle of its shortest edge. The
  vertices are \<^verbatim>\<open>int32\<close> rows: the sum of two coordinates is a 32-bit integer, and its
  half is a double. The result is \<open>(xpos, ypos, mid_x, mid_y)\<close>.
\<close>

definition apex_and_midpoint :: "point \<Rightarrow> point \<Rightarrow> point \<Rightarrow> int \<times> int \<times> int \<times> int" where
  "apex_and_midpoint p1 p2 p3 =
     (let dist1 = distance_of_points Int32 p1 p2;
          dist2 = distance_of_points Int32 p1 p3;
          dist3 = distance_of_points Int32 p2 p3;
          min_dist = py_min3 dist1 dist2 dist3;
          (xpos, ypos, mid_x, mid_y) =
            (if np_eq dist1 min_dist then
               (fst p3, snd p3,
                fl64 (real_of_int (wrap32 (fst p1 + fst p2)) / 2),
                fl64 (real_of_int (wrap32 (snd p1 + snd p2)) / 2))
             else if np_eq dist2 min_dist then
               (fst p2, snd p2,
                fl64 (real_of_int (wrap32 (fst p1 + fst p3)) / 2),
                fl64 (real_of_int (wrap32 (snd p1 + snd p3)) / 2))
             else
               (fst p1, snd p1,
                fl64 (real_of_int (wrap32 (fst p3 + fst p2)) / 2),
                fl64 (real_of_int (wrap32 (snd p3 + snd p2)) / 2)))
      in (xpos, ypos, py_int mid_x, py_int mid_y))"

text \<open>
  Lines 254 to 261: the two slopes and the tangent of the angle between the lines. Each
  slope is a double, the quotient that \<open>get_slope\<close> returns rounded; the difference, the
  product, the sum and the quotient of the tangent are rounded one by one. The slopes are
  numpy scalars, so the last division does not raise.
\<close>

definition angle_tangent :: "int \<Rightarrow> int \<Rightarrow> int \<Rightarrow> int \<Rightarrow> int \<Rightarrow> error + npfloat" where
  "angle_tangent xpos ypos mid_x mid_y map_width =
     (case get_slope (mid_x + 1) (mid_y + 1) (mid_x + 1) map_width of
        Inl e \<Rightarrow> Inl e
      | Inr n \<Rightarrow>
          (case get_slope xpos ypos (mid_x + 1) (mid_y + 1) of
             Inl e \<Rightarrow> Inl e
           | Inr p \<Rightarrow>
               (let north_slope = fl64 n;
                    pointer_slope = fl64 p
                in Inr (np_div64 (fl64 (north_slope - pointer_slope))
                                 (fl64 (1 + fl64 (north_slope * pointer_slope)))))))"

text \<open>Lines 263 and 264: the unsigned angle in degrees.\<close>

definition pointer_dirr :: "npfloat \<Rightarrow> npfloat" where
  "pointer_dirr t = math_degrees (np_abs (math_atan t))"

text \<open>Lines 278 to 284: the number of degrees added to the unsigned angle.\<close>

definition quadrant_correction :: "int \<Rightarrow> int \<Rightarrow> int \<Rightarrow> int \<Rightarrow> npfloat \<Rightarrow> real" where
  "quadrant_correction mid_x mid_y xpos ypos t =
     (if mid_x > xpos then
        (if mid_y < ypos then 180
         else if np_lt0 t then 270
         else 180)
      else 0)"

definition bearing :: "int \<Rightarrow> int \<Rightarrow> int \<Rightarrow> int \<Rightarrow> int \<Rightarrow> error + npfloat" where
  "bearing xpos ypos mid_x mid_y map_width =
     (case angle_tangent xpos ypos mid_x mid_y map_width of
        Inl e \<Rightarrow> Inl e
      | Inr t \<Rightarrow> Inr (np_add (pointer_dirr t) (quadrant_correction mid_x mid_y xpos ypos t)))"

text \<open>Lines 291 to 294: the normalised position.\<close>

definition position :: "int \<Rightarrow> int \<Rightarrow> int \<Rightarrow> int \<Rightarrow> npfloat \<times> npfloat" where
  "position xpos ypos map_width map_height =
     (let ypos = \<bar>ypos - map_height\<bar>
      in (np_div (real_of_int xpos) (real_of_int map_width),
          np_div (real_of_int ypos) (real_of_int map_height)))"

text \<open>
  The marker step as a whole, from the polygon of the rectified map and the polygon of
  the pointer to the printed position and bearing. The pointer's polygon is unpacked into
  three vertices.
\<close>

definition resolve :: "point list \<Rightarrow> point list \<Rightarrow> error + (npfloat \<times> npfloat) \<times> npfloat" where
  "resolve warpedPoints triangle =
     (case map_size warpedPoints of
        Inl e \<Rightarrow> Inl e
      | Inr (map_width, map_height) \<Rightarrow>
          (case triangle of
             [p1, p2, p3] \<Rightarrow>
               (case apex_and_midpoint p1 p2 p3 of
                  (xpos, ypos, mid_x, mid_y) \<Rightarrow>
                    (case bearing xpos ypos mid_x mid_y map_width of
                       Inl e \<Rightarrow> Inl e
                     | Inr hdg \<Rightarrow> Inr (position xpos ypos map_width map_height, hdg)))
           | _ \<Rightarrow> Inl ValueError))"

section \<open>The statements of the specification\<close>

text \<open>
  The predicates of this section are not code of the program. They say, in the
  specification's words, what its sentences claim, so that the program can be compared
  with them.
\<close>

text \<open>
  The corner labels as the specification words them: top-left has the least \<open>x + y\<close>,
  bottom-right the greatest, top-right the least \<open>x - y\<close> and bottom-left the greatest
  \<open>x - y\<close>.
\<close>

definition claimed_labels :: "('a::linordered_idom \<times> 'a) list \<Rightarrow> ('a \<times> 'a) list \<Rightarrow> bool" where
  "claimed_labels points out =
     (case out of
        [topLeft, topRight, bottRight, bottLeft] \<Rightarrow>
          (\<forall>q\<in>set points. fst topLeft + snd topLeft \<le> fst q + snd q) \<and>
          (\<forall>q\<in>set points. fst q + snd q \<le> fst bottRight + snd bottRight) \<and>
          (\<forall>q\<in>set points. fst topRight - snd topRight \<le> fst q - snd q) \<and>
          (\<forall>q\<in>set points. fst q - snd q \<le> fst bottLeft - snd bottLeft)
      | _ \<Rightarrow> False)"

text \<open>
  A single point attains the least (greatest) value of \<open>f\<close>; and the four extremes that
  \<^const>\<open>order_points\<close> looks for are each attained by a single point.
\<close>

definition single_least :: "('p \<Rightarrow> 'v::linorder) \<Rightarrow> 'p list \<Rightarrow> bool" where
  "single_least f ps =
     (\<forall>a\<in>set ps. \<forall>b\<in>set ps.
        (\<forall>q\<in>set ps. f a \<le> f q) \<and> (\<forall>q\<in>set ps. f b \<le> f q) \<longrightarrow> a = b)"

definition single_greatest :: "('p \<Rightarrow> 'v::linorder) \<Rightarrow> 'p list \<Rightarrow> bool" where
  "single_greatest f ps =
     (\<forall>a\<in>set ps. \<forall>b\<in>set ps.
        (\<forall>q\<in>set ps. f q \<le> f a) \<and> (\<forall>q\<in>set ps. f q \<le> f b) \<longrightarrow> a = b)"

definition extremes_unique :: "('a::linordered_idom \<times> 'a) list \<Rightarrow> bool" where
  "extremes_unique ps =
     (single_least (\<lambda>p. fst p + snd p) ps \<and> single_greatest (\<lambda>p. fst p + snd p) ps \<and>
      single_least (\<lambda>p. snd p - fst p) ps \<and> single_greatest (\<lambda>p. snd p - fst p) ps)"

text \<open>A uniform translation and a uniform scaling of a point.\<close>

definition translate :: "'a::linordered_idom \<Rightarrow> 'a \<Rightarrow> 'a \<times> 'a \<Rightarrow> 'a \<times> 'a" where
  "translate dx dy p = (fst p + dx, snd p + dy)"

definition scale :: "'a::linordered_idom \<Rightarrow> 'a \<times> 'a \<Rightarrow> 'a \<times> 'a" where
  "scale k p = (k * fst p, k * snd p)"

text \<open>
  A convex quadrilateral, its vertices listed along the boundary: the four turns have the
  same strict orientation.
\<close>

definition cross :: "point \<Rightarrow> point \<Rightarrow> point \<Rightarrow> int" where
  "cross a b c = (fst b - fst a) * (snd c - snd b) - (snd b - snd a) * (fst c - fst b)"

definition convex_quad :: "point list \<Rightarrow> bool" where
  "convex_quad ps =
     (case ps of
        [a, b, c, d] \<Rightarrow>
          (0 < cross a b c \<and> 0 < cross b c d \<and> 0 < cross c d a \<and> 0 < cross d a b) \<or>
          (cross a b c < 0 \<and> cross b c d < 0 \<and> cross c d a < 0 \<and> cross d a b < 0)
      | _ \<Rightarrow> False)"

text \<open>
  The quadrant correction as the specification words it. The origin of the image is its
  top-left corner and rows are counted downward, so the apex is above the base midpoint
  when \<open>ypos < mid_y\<close> and below it when \<open>mid_y < ypos\<close>; it is left of the midpoint when
  \<open>xpos < mid_x\<close> and right of it when \<open>mid_x < xpos\<close>.
\<close>

definition claimed_correction :: "int \<Rightarrow> int \<Rightarrow> int \<Rightarrow> int \<Rightarrow> npfloat \<Rightarrow> real \<Rightarrow> bool" where
  "claimed_correction mid_x mid_y xpos ypos t c =
     ((xpos < mid_x \<and> ypos < mid_y \<longrightarrow> c = 180) \<and>
      (xpos < mid_x \<and> mid_y < ypos \<and> np_lt0 t \<longrightarrow> c = 270) \<and>
      (xpos < mid_x \<and> mid_y < ypos \<and> \<not> np_lt0 t \<longrightarrow> c = 180) \<and>
      (mid_x < xpos \<longrightarrow> c = 0))"

text \<open>A printed number that lies in \<open>[0, 1]\<close>; an infinity and a NaN do not.\<close>

fun in_unit :: "npfloat \<Rightarrow> bool" where
  "in_unit (Fin r) = (0 \<le> r \<and> r \<le> 1)"
| "in_unit PInf = False"
| "in_unit NInf = False"
| "in_unit NaN = False"

text \<open>The range claimed for the bearing: \<open>[0, 90)\<close> or \<open>[180, 360)\<close>.\<close>

definition in_claimed_range :: "real \<Rightarrow> bool" where
  "in_claimed_range b = (0 \<le> b \<and> b < 90 \<or> 180 \<le> b \<and> b < 360)"

text \<open>
  The Euclidean length of an edge, and its square; and a point whose coordinates are
  pixel coordinates below \<open>2^15\<close>.
\<close>

definition edge_sq :: "point \<Rightarrow> point \<Rightarrow> int" where
  "edge_sq a b = (fst a - fst b)\<^sup>2 + (snd a - snd b)\<^sup>2"


definition in_pixel_range :: "point \<Rightarrow> bool" where
  "in_pixel_range p = (0 \<le> fst p \<and> fst p < 32768 \<and> 0 \<le> snd p \<and> snd p < 32768)"

section \<open>Rounding\<close>

lemma rne_error: "\<bar>real_of_int (rne q) - q\<bar> \<le> 1 / 2"
  unfolding rne_def Let_def by (auto; linarith)

lemma rne_bounds: "real_of_int (rne q) \<le> q + 1 / 2" "q - 1 / 2 \<le> real_of_int (rne q)"
  using rne_error [of q] by linarith+

lemma rne_of_int: "rne (real_of_int n) = n"
  by (simp add: rne_def)

lemma rne_le: "q \<le> real_of_int N \<Longrightarrow> rne q \<le> N"
proof -
  assume "q \<le> real_of_int N"
  with rne_bounds(1) [of q] have "real_of_int (rne q) < real_of_int (N + 1)" by simp
  then have "rne q < N + 1" by (simp only: of_int_less_iff)
  then show ?thesis by simp
qed

lemma rne_ge: "real_of_int N \<le> q \<Longrightarrow> N \<le> rne q"
proof -
  assume "real_of_int N \<le> q"
  with rne_bounds(2) [of q] have "real_of_int (N - 1) < real_of_int (rne q)" by simp
  then have "N - 1 < rne q" by (simp only: of_int_less_iff)
  then show ?thesis by simp
qed

lemma rne_near: "\<bar>q - real_of_int N\<bar> < 1 / 2 \<Longrightarrow> rne q = N"
proof -
  assume a: "\<bar>q - real_of_int N\<bar> < 1 / 2"
  then have "q - real_of_int N < 1 / 2" "real_of_int N - q < 1 / 2"
    by linarith+
  with rne_bounds [of q]
  have "real_of_int (rne q) < real_of_int (N + 1)" "real_of_int (N - 1) < real_of_int (rne q)"
    by simp_all
  then have "rne q < N + 1" "N - 1 < rne q" by (simp_all only: of_int_less_iff)
  then show ?thesis by simp
qed

lemma floor_minus_nonint: "q \<noteq> real_of_int \<lfloor>q\<rfloor> \<Longrightarrow> \<lfloor>- q\<rfloor> = - \<lfloor>q\<rfloor> - 1"
proof -
  assume n: "q \<noteq> real_of_int \<lfloor>q\<rfloor>"
  have b: "real_of_int \<lfloor>q\<rfloor> \<le> q" "q < real_of_int \<lfloor>q\<rfloor> + 1" by linarith+
  with n have l: "real_of_int \<lfloor>q\<rfloor> < q" by linarith
  have e: "real_of_int (- \<lfloor>q\<rfloor> - 1) = - real_of_int \<lfloor>q\<rfloor> - 1" by simp
  have "real_of_int (- \<lfloor>q\<rfloor> - 1) \<le> - q" unfolding e using b(2) by linarith
  moreover have "- q < real_of_int (- \<lfloor>q\<rfloor> - 1) + 1" unfolding e using l by linarith
  ultimately show ?thesis by (rule floor_unique)
qed

lemma rne_minus: "rne (- q) = - rne q"
proof (cases "q = real_of_int \<lfloor>q\<rfloor>")
  case True
  then obtain n where "q = real_of_int n" ..
  then show ?thesis using rne_of_int [of n] rne_of_int [of "- n"] by simp
next
  case False
  then have fm: "\<lfloor>- q\<rfloor> = - \<lfloor>q\<rfloor> - 1" by (rule floor_minus_nonint)
  have "real_of_int \<lfloor>q\<rfloor> \<le> q" "q < real_of_int \<lfloor>q\<rfloor> + 1" by linarith+
  then show ?thesis
    unfolding rne_def Let_def fm by (auto simp: algebra_simps)
qed

lemma float_exp_bounds:
  assumes "x \<noteq> 0"
  shows "2 powr real_of_int (float_exp x) \<le> \<bar>x\<bar>"
    and "\<bar>x\<bar> < 2 powr (real_of_int (float_exp x) + 1)"
  using assms floor_log_eq_powr_iff [of "\<bar>x\<bar>" 2 "float_exp x"]
  by (simp_all add: float_exp_def)

lemma float_exp_eq:
  assumes "2 powr real_of_int k \<le> \<bar>x\<bar>" and "\<bar>x\<bar> < 2 powr (real_of_int k + 1)"
  shows "float_exp x = k"
proof -
  have "0 < \<bar>x\<bar>" using assms(1) powr_gt_zero [of 2 "real_of_int k"] by linarith
  then show ?thesis
    unfolding float_exp_def using assms floor_log_eq_powr_iff [of "\<bar>x\<bar>" 2 k] by simp
qed

lemma ulp_pos: "0 < ulp p x"
  by (simp add: ulp_def)

lemma ulp_minus: "ulp p (- x) = ulp p x"
  by (simp add: ulp_def float_exp_def)

lemma fl_zero: "fl p 0 = 0"
  by (simp add: fl_def)

lemma fl_minus: "fl p (- x) = - fl p x"
  by (simp add: fl_def ulp_minus rne_minus)

lemma fl_error_ulp: "\<bar>fl p x - x\<bar> \<le> ulp p x / 2"
proof (cases "x = 0")
  case True
  then show ?thesis using ulp_pos [of p x] by (simp add: fl_def)
next
  case False
  let ?u = "ulp p x"
  have u: "0 < ?u" by (rule ulp_pos)
  have "fl p x - x = (real_of_int (rne (x / ?u)) - x / ?u) * ?u"
    using False u by (simp add: fl_def algebra_simps)
  then have "\<bar>fl p x - x\<bar> = \<bar>real_of_int (rne (x / ?u)) - x / ?u\<bar> * ?u"
    using u by (simp add: abs_mult)
  also have "\<dots> \<le> 1 / 2 * ?u"
    using rne_error [of "x / ?u"] u by (intro mult_right_mono) simp_all
  finally show ?thesis by simp
qed

lemma ulp_le: "x \<noteq> 0 \<Longrightarrow> ulp p x \<le> \<bar>x\<bar> * 2 / 2 ^ p"
proof -
  assume x: "x \<noteq> 0"
  have "real_of_int (float_exp x - int p + 1) = real_of_int (float_exp x) + (1 - real p)"
    by simp
  then have "ulp p x = 2 powr real_of_int (float_exp x) * 2 powr (1 - real p)"
    unfolding ulp_def by (simp only: powr_add)
  also have "2 powr (1 - real p) = 2 / 2 ^ p"
    by (simp add: powr_diff powr_realpow)
  finally have "ulp p x = 2 powr real_of_int (float_exp x) * (2 / 2 ^ p)" .
  also have "\<dots> \<le> \<bar>x\<bar> * (2 / 2 ^ p)"
    using float_exp_bounds(1) [OF x] by (intro mult_right_mono) simp_all
  finally show ?thesis by simp
qed

lemma fl_error: "\<bar>fl p x - x\<bar> \<le> \<bar>x\<bar> / 2 ^ p"
proof (cases "x = 0")
  case True
  then show ?thesis by (simp add: fl_zero)
next
  case False
  have "\<bar>fl p x - x\<bar> \<le> ulp p x / 2" by (rule fl_error_ulp)
  also have "\<dots> \<le> (\<bar>x\<bar> * 2 / 2 ^ p) / 2"
    using ulp_le [OF False, of p] by simp
  finally show ?thesis by simp
qed

lemma fl_pos: "0 < p \<Longrightarrow> 0 < x \<Longrightarrow> 0 < fl p x"
proof -
  assume p: "0 < p" and x: "0 < x"
  have "(2::real) ^ 1 \<le> 2 ^ p" using p by (intro power_increasing) simp_all
  then have "x / 2 ^ p \<le> x / 2" using x by (simp add: field_simps)
  with fl_error [of p x] x show ?thesis by linarith
qed

lemma fl_neg: "0 < p \<Longrightarrow> x < 0 \<Longrightarrow> fl p x < 0"
  using fl_pos [of p "- x"] by (simp add: fl_minus)

lemma fl_nonneg: "0 < p \<Longrightarrow> 0 \<le> x \<Longrightarrow> 0 \<le> fl p x"
  using fl_pos [of p x] by (cases "x = 0") (simp_all add: fl_zero less_eq_real_def)

lemma fl_eq_0_iff: "0 < p \<Longrightarrow> (fl p x = 0) = (x = 0)"
proof -
  assume p: "0 < p"
  consider "x < 0" | "x = 0" | "0 < x" by linarith
  then show ?thesis
  proof cases
    case 1
    with fl_neg [OF p 1] show ?thesis by simp
  next
    case 2
    then show ?thesis by (simp add: fl_zero)
  next
    case 3
    with fl_pos [OF p 3] show ?thesis by simp
  qed
qed

text \<open>Rounding never crosses a number of the format's grid.\<close>

lemma fl_grid:
  assumes x: "\<bar>x\<bar> < 2 powr (real_of_int c + real p)"
    and y: "y = real_of_int M * 2 powr real_of_int c"
  shows "x \<le> y \<Longrightarrow> fl p x \<le> y" and "y \<le> x \<Longrightarrow> y \<le> fl p x"
proof -
  have *: "(x \<le> y \<longrightarrow> fl p x \<le> y) \<and> (y \<le> x \<longrightarrow> y \<le> fl p x)"
  proof (cases "x = 0")
    case True
    then show ?thesis by (simp add: fl_zero)
  next
    case False
    let ?e = "float_exp x"
    let ?u = "ulp p x"
    have u: "0 < ?u" by (rule ulp_pos)
    have "2 powr real_of_int ?e < 2 powr (real_of_int c + real p)"
      using float_exp_bounds(1) [OF False] x by linarith
    then have "real_of_int ?e < real_of_int c + real p" by simp
    then have "?e < c + int p" by linarith
    then have d: "0 \<le> c - (?e - int p + 1)" by simp
    define j where "j = nat (c - (?e - int p + 1))"
    have "2 powr real_of_int c = 2 powr real_of_int (?e - int p + 1) * 2 powr real j"
      unfolding j_def using d by (simp add: powr_add [symmetric])
    then have "2 powr real_of_int c = ?u * 2 ^ j"
      by (simp add: ulp_def powr_realpow)
    then have yu: "y = real_of_int (M * 2 ^ j) * ?u"
      using y by simp
    have fx: "fl p x = real_of_int (rne (x / ?u)) * ?u"
      using False by (simp add: fl_def)
    show ?thesis
    proof (intro conjI impI)
      assume "x \<le> y"
      then have "x / ?u \<le> real_of_int (M * 2 ^ j)"
        using u yu by (simp add: field_simps)
      then have "rne (x / ?u) \<le> M * 2 ^ j" by (rule rne_le)
      then have "real_of_int (rne (x / ?u)) \<le> real_of_int (M * 2 ^ j)"
        by (simp only: of_int_le_iff)
      then show "fl p x \<le> y"
        unfolding fx yu using u by (intro mult_right_mono) simp_all
    next
      assume "y \<le> x"
      then have "real_of_int (M * 2 ^ j) \<le> x / ?u"
        using u yu by (simp add: field_simps)
      then have "M * 2 ^ j \<le> rne (x / ?u)" by (rule rne_ge)
      then have "real_of_int (M * 2 ^ j) \<le> real_of_int (rne (x / ?u))"
        by (simp only: of_int_le_iff)
      then show "y \<le> fl p x"
        unfolding fx yu using u by (intro mult_right_mono) simp_all
    qed
  qed
  show "x \<le> y \<Longrightarrow> fl p x \<le> y" and "y \<le> x \<Longrightarrow> y \<le> fl p x"
    using * by blast+
qed

lemma fl_exact:
  assumes "\<bar>real_of_int M\<bar> < 2 ^ p"
  shows "fl p (real_of_int M * 2 powr real_of_int c) = real_of_int M * 2 powr real_of_int c"
proof -
  let ?x = "real_of_int M * 2 powr real_of_int c"
  have "\<bar>?x\<bar> = \<bar>real_of_int M\<bar> * 2 powr real_of_int c" by (simp add: abs_mult)
  also have "\<dots> < 2 ^ p * 2 powr real_of_int c"
    using assms by (intro mult_strict_right_mono) simp_all
  also have "\<dots> = 2 powr (real_of_int c + real p)"
    by (simp add: powr_add powr_realpow)
  finally have b: "\<bar>?x\<bar> < 2 powr (real_of_int c + real p)" .
  from fl_grid [OF b refl] show ?thesis by (simp add: order_antisym)
qed

lemma fl_of_int: "\<bar>real_of_int M\<bar> < 2 ^ p \<Longrightarrow> fl p (real_of_int M) = real_of_int M"
  using fl_exact [of M p 0] by simp

text \<open>The rounded value, from the binade of the number and the nearest point of the grid.\<close>

lemma fl_eval:
  assumes "2 powr real_of_int k \<le> \<bar>x\<bar>" and "\<bar>x\<bar> < 2 powr (real_of_int k + 1)"
    and "\<bar>x / 2 powr real_of_int (k - int p + 1) - real_of_int N\<bar> < 1 / 2"
  shows "fl p x = real_of_int N * 2 powr real_of_int (k - int p + 1)"
proof -
  have e: "float_exp x = k" using assms(1,2) by (rule float_exp_eq)
  have "x \<noteq> 0" using assms(1) powr_gt_zero [of 2 "real_of_int k"] by auto
  then show ?thesis
    using rne_near [OF assms(3)] by (simp add: fl_def ulp_def e)
qed

section \<open>Bounds of \<open>\<pi>\<close>\<close>

lemma arctan_series_bounds:
  assumes "0 < x" and "x \<le> 1"
  shows "(\<Sum>i<2 * n. (- 1) ^ i * (1 / real (i * 2 + 1) * x ^ (i * 2 + 1))) \<le> arctan x"
    and "arctan x \<le> (\<Sum>i<2 * n + 1. (- 1) ^ i * (1 / real (i * 2 + 1) * x ^ (i * 2 + 1)))"
proof -
  have ax: "\<bar>x\<bar> \<le> 1" using assms by simp
  let ?a = "\<lambda>n. 1 / real (n * 2 + 1) * x ^ (n * 2 + 1)"
  have "0 < ?a 0" using assms by simp
  with summable_Leibniz(2) [OF zeroseq_arctan_series [OF ax] monoseq_arctan_series [OF ax]]
  have "(\<Sum>i. (- 1) ^ i * ?a i) \<in> {\<Sum>i<2 * n. (- 1) ^ i * ?a i .. \<Sum>i<2 * n + 1. (- 1) ^ i * ?a i}"
    by blast
  then show "(\<Sum>i<2 * n. (- 1) ^ i * ?a i) \<le> arctan x"
    and "arctan x \<le> (\<Sum>i<2 * n + 1. (- 1) ^ i * ?a i)"
    unfolding arctan_series [OF ax] by simp_all
qed

lemma pi_machin: "pi = 16 * arctan (1 / 5) - 4 * arctan (1 / 239)"
  using machin by simp

lemma pi_upper: "pi < 14148475504056881 / 2 ^ 52"
proof -
  have u: "arctan (1 / 5) \<le> (\<Sum>i<2 * 5 + 1. (- 1) ^ i * (1 / real (i * 2 + 1) * (1 / 5) ^ (i * 2 + 1)))"
    by (rule arctan_series_bounds(2)) simp_all
  have l: "(\<Sum>i<2 * 2. (- 1) ^ i * (1 / real (i * 2 + 1) * (1 / 239) ^ (i * 2 + 1))) \<le> arctan (1 / 239)"
    by (rule arctan_series_bounds(1)) simp_all
  have "pi \<le> 16 * (\<Sum>i<2 * 5 + 1. (- 1) ^ i * (1 / real (i * 2 + 1) * (1 / 5) ^ (i * 2 + 1)))
      - 4 * (\<Sum>i<2 * 2. (- 1) ^ i * (1 / real (i * 2 + 1) * (1 / 239) ^ (i * 2 + 1)))"
    unfolding pi_machin using u l by linarith
  also have "\<dots> < 14148475504056881 / 2 ^ 52"
    by (simp add: lessThan_nat_numeral lessThan_Suc power_divide)
  finally show ?thesis .
qed

lemma pi_lower: "14148475504056879 / 2 ^ 52 < pi"
proof -
  have l: "(\<Sum>i<2 * 6. (- 1) ^ i * (1 / real (i * 2 + 1) * (1 / 5) ^ (i * 2 + 1))) \<le> arctan (1 / 5)"
    by (rule arctan_series_bounds(1)) simp_all
  have u: "arctan (1 / 239) \<le> (\<Sum>i<2 * 1 + 1. (- 1) ^ i * (1 / real (i * 2 + 1) * (1 / 239) ^ (i * 2 + 1)))"
    by (rule arctan_series_bounds(2)) simp_all
  have "14148475504056879 / 2 ^ 52 <
      16 * (\<Sum>i<2 * 6. (- 1) ^ i * (1 / real (i * 2 + 1) * (1 / 5) ^ (i * 2 + 1)))
      - 4 * (\<Sum>i<2 * 1 + 1. (- 1) ^ i * (1 / real (i * 2 + 1) * (1 / 239) ^ (i * 2 + 1)))"
    by (simp add: lessThan_nat_numeral lessThan_Suc power_divide)
  also have "\<dots> \<le> pi"
    unfolding pi_machin using u l by linarith
  finally show ?thesis .
qed

section \<open>Integers, powers of two and the constants of the angle\<close>

lemma wrap32_id: "- 2147483648 \<le> k \<Longrightarrow> k < 2147483648 \<Longrightarrow> wrap32 k = k"
  by (simp add: wrap32_def)

lemma wrap32_range: "- 2147483648 \<le> wrap32 k \<and> wrap32 k < 2147483648"
  unfolding wrap32_def
  using pos_mod_sign [of 4294967296 "k + 2147483648"] pos_mod_bound [of 4294967296 "k + 2147483648"]
  by simp

lemma fl_pow2:
  "\<bar>real_of_int M\<bar> < 2 ^ p \<Longrightarrow> fl p (real_of_int M * 2 ^ j) = real_of_int M * 2 ^ j"
  using fl_exact [of M p "int j"] by (simp add: powr_realpow)

lemma fl_dyadic:
  "\<bar>real_of_int M\<bar> < 2 ^ p \<Longrightarrow> fl p (real_of_int M / 2 ^ j) = real_of_int M / 2 ^ j"
  using fl_exact [of M p "- int j"] by (simp add: powr_minus powr_realpow field_simps)

lemma fl_idem:
  assumes p: "0 < p"
  shows "fl p (fl p x) = fl p x"
proof (cases "x = 0")
  case True
  then show ?thesis by (simp add: fl_zero)
next
  case False
  let ?e = "float_exp x"
  let ?u = "ulp p x"
  let ?N = "rne (x / ?u)"
  have u: "0 < ?u" by (rule ulp_pos)
  have fx: "fl p x = real_of_int ?N * 2 powr real_of_int (?e - int p + 1)"
    using False by (simp add: fl_def ulp_def)
  have "(1::real) < 2 ^ p" using p by (intro one_less_power) simp_all
  then have one: "\<bar>real_of_int 1\<bar> < (2::real) ^ p" by simp
  have up: "?u * 2 ^ p = 2 powr real_of_int (?e + 1)"
    by (simp add: ulp_def powr_realpow [symmetric] powr_add [symmetric])
  have "\<bar>x\<bar> < ?u * 2 ^ p"
    using float_exp_bounds(2) [OF False] up by simp
  then have "\<bar>x\<bar> / ?u < 2 ^ p"
    using u by (simp add: field_simps)
  then have "\<bar>x / ?u\<bar> < 2 ^ p"
    using u by (simp add: abs_divide)
  then have "x / ?u \<le> real_of_int (2 ^ p)" "real_of_int (- (2 ^ p)) \<le> x / ?u"
    by (simp_all, linarith+)
  then have N: "?N \<le> 2 ^ p" "- (2 ^ p) \<le> ?N"
    using rne_le [of "x / ?u" "2 ^ p"] rne_ge [of "- (2 ^ p)" "x / ?u"] by blast+
  consider "\<bar>?N\<bar> < 2 ^ p" | "?N = 2 ^ p" | "?N = - (2 ^ p)"
    using N by linarith
  then show ?thesis
  proof cases
    case 1
    then have "real_of_int \<bar>?N\<bar> < real_of_int (2 ^ p)"
      by (simp only: of_int_less_iff)
    then have "\<bar>real_of_int ?N\<bar> < 2 ^ p" by simp
    then show ?thesis unfolding fx by (rule fl_exact)
  next
    case 2
    have "fl p x = ?u * 2 ^ p"
      using False 2 by (simp add: fl_def)
    then have v: "fl p x = real_of_int 1 * 2 powr real_of_int (?e + 1)"
      using up by simp
    show ?thesis unfolding v using one by (rule fl_exact)
  next
    case 3
    have "fl p x = - (?u * 2 ^ p)"
      using False 3 by (simp add: fl_def)
    then have v: "fl p x = - (real_of_int 1 * 2 powr real_of_int (?e + 1))"
      using up by simp
    show ?thesis unfolding v fl_minus using one by (simp only: fl_exact)
  qed
qed

lemma abs_diff_less_half:
  "n - 1 / 2 < q \<Longrightarrow> q < n + 1 / 2 \<Longrightarrow> \<bar>q - n\<bar> < 1 / 2" for q n :: real
  by linarith

lemma math_pi_value: "math_pi = 884279719003555 / 2 ^ 48"
proof -
  have a: "2 powr real_of_int 1 \<le> \<bar>pi\<bar>" using pi_ge_two by simp
  have b: "\<bar>pi\<bar> < 2 powr (real_of_int 1 + 1)" using pi_less_4 by simp
  have c: "\<bar>pi / 2 powr real_of_int (1 - int 53 + 1) - real_of_int 7074237752028440\<bar> < 1 / 2"
    using pi_lower pi_upper by (intro abs_diff_less_half) (simp_all add: powr_minus field_simps)
  show ?thesis
    unfolding math_pi_def fl64_def fl_eval [OF a b c] by (simp add: powr_minus)
qed

lemma half_pi_value: "fl64 (pi / 2) = 884279719003555 / 2 ^ 49"
proof -
  have a: "2 powr real_of_int 0 \<le> \<bar>pi / 2\<bar>" using pi_ge_two by simp
  have b: "\<bar>pi / 2\<bar> < 2 powr (real_of_int 0 + 1)" using pi_less_4 by simp
  have c: "\<bar>pi / 2 / 2 powr real_of_int (0 - int 53 + 1) - real_of_int 7074237752028440\<bar> < 1 / 2"
    using pi_lower pi_upper by (intro abs_diff_less_half) (simp_all add: powr_minus field_simps)
  show ?thesis
    unfolding fl64_def fl_eval [OF a b c] by (simp add: powr_minus)
qed

lemma radToDeg_value: "radToDeg = 1007958012753983 / 2 ^ 44"
proof -
  let ?x = "180 / (884279719003555 / 2 ^ 48) :: real"
  have a: "2 powr real_of_int 5 \<le> \<bar>?x\<bar>" by simp
  have b: "\<bar>?x\<bar> < 2 powr (real_of_int 5 + 1)" by simp
  have c: "\<bar>?x / 2 powr real_of_int (5 - int 53 + 1) - real_of_int 8063664102031864\<bar> < 1 / 2"
    by (simp add: powr_minus abs_less_iff)
  show ?thesis
    unfolding radToDeg_def math_pi_value fl64_def fl_eval [OF a b c] by (simp add: powr_minus)
qed

lemma degrees_half_pi: "fl64 (884279719003555 / 2 ^ 49 * radToDeg) = 90"
proof -
  let ?x = "884279719003555 / 2 ^ 49 * (1007958012753983 / 2 ^ 44) :: real"
  have a: "2 powr real_of_int 6 \<le> \<bar>?x\<bar>" by simp
  have b: "\<bar>?x\<bar> < 2 powr (real_of_int 6 + 1)" by simp
  have c: "\<bar>?x / 2 powr real_of_int (6 - int 53 + 1) - real_of_int 6333186975989760\<bar> < 1 / 2"
    by (simp add: powr_minus abs_less_iff)
  show ?thesis
    unfolding radToDeg_value fl64_def fl_eval [OF a b c] by (simp add: powr_minus)
qed

section \<open>The range of the rounded angle\<close>

lemma atan_upper: "fl64 (arctan r) \<le> 884279719003555 / 2 ^ 49"
proof (cases "arctan r \<le> 884279719003555 / 2 ^ 49")
  case True
  have "\<bar>arctan r\<bar> < pi / 2"
    using arctan_lbound [of r] arctan_ubound [of r] by linarith
  then have b: "\<bar>arctan r\<bar> < 2 powr (real_of_int (- 49) + real 53)"
    using pi_less_4 by simp
  have y: "(884279719003555 / 2 ^ 49 :: real) = real_of_int 884279719003555 * 2 powr real_of_int (- 49)"
    by (simp add: powr_minus)
  show ?thesis unfolding fl64_def using True by (rule fl_grid(1) [OF b y])
next
  case False
  then have l: "884279719003555 / 2 ^ 49 < arctan r" by simp
  have u: "arctan r < 14148475504056881 / 2 ^ 53"
    using arctan_ubound [of r] pi_upper by simp
  have a: "2 powr real_of_int 0 \<le> \<bar>arctan r\<bar>" using l by simp
  have b: "\<bar>arctan r\<bar> < 2 powr (real_of_int 0 + 1)" using u l by simp
  have c: "\<bar>arctan r / 2 powr real_of_int (0 - int 53 + 1) - real_of_int 7074237752028440\<bar> < 1 / 2"
    using l u by (intro abs_diff_less_half) (simp_all add: powr_minus field_simps)
  show ?thesis
    unfolding fl64_def fl_eval [OF a b c] by (simp add: powr_minus)
qed

lemma atan_lower: "- (884279719003555 / 2 ^ 49) \<le> fl64 (arctan r)"
  using atan_upper [of "- r"] by (simp add: arctan_minus fl64_def fl_minus)

lemma fl64_nonneg: "0 \<le> x \<Longrightarrow> 0 \<le> fl64 x"
  unfolding fl64_def by (rule fl_nonneg) simp

lemma fl64_le_grid:
  "\<bar>x\<bar> < 2 ^ 50 \<Longrightarrow> x \<le> real_of_int M \<Longrightarrow> fl64 x \<le> real_of_int M"
  unfolding fl64_def
  by (rule fl_grid(1) [where c = 0 and M = M]) (simp_all add: powr_realpow, linarith?)

lemma fl64_ge_grid:
  "\<bar>x\<bar> < 2 ^ 50 \<Longrightarrow> real_of_int M \<le> x \<Longrightarrow> real_of_int M \<le> fl64 x"
  unfolding fl64_def
  by (rule fl_grid(2) [where c = 0 and M = M]) (simp_all add: powr_realpow, linarith?)

lemma degrees_range:
  assumes "0 \<le> a" and "a \<le> 884279719003555 / 2 ^ 49"
  shows "0 \<le> fl64 (a * radToDeg)" and "fl64 (a * radToDeg) \<le> 90"
proof -
  have r: "0 \<le> radToDeg" by (simp add: radToDeg_value)
  then show "0 \<le> fl64 (a * radToDeg)" using assms(1) by (intro fl64_nonneg) simp
  have "a * radToDeg \<le> 884279719003555 / 2 ^ 49 * radToDeg"
    using assms(2) r by (rule mult_right_mono)
  also have "\<dots> \<le> 90" by (simp add: radToDeg_value)
  finally have le: "a * radToDeg \<le> real_of_int 90" by simp
  have "0 \<le> a * radToDeg" using assms(1) r by simp
  with le have "\<bar>a * radToDeg\<bar> < 2 ^ 50" by simp
  then have "fl64 (a * radToDeg) \<le> real_of_int 90" using le by (rule fl64_le_grid)
  then show "fl64 (a * radToDeg) \<le> 90" by simp
qed

lemma fl64_minus: "fl64 (- x) = - fl64 x"
  by (simp add: fl64_def fl_minus)

lemma pointer_dirr_infinite: "pointer_dirr PInf = Fin 90" "pointer_dirr NInf = Fin 90"
proof -
  have h: "\<bar>fl64 (pi / 2)\<bar> = 884279719003555 / 2 ^ 49"
    "\<bar>fl64 (- (pi / 2))\<bar> = 884279719003555 / 2 ^ 49"
    by (simp_all add: fl64_minus half_pi_value)
  show "pointer_dirr PInf = Fin 90" "pointer_dirr NInf = Fin 90"
    unfolding pointer_dirr_def math_atan.simps np_abs.simps h math_degrees.simps degrees_half_pi
    by (rule refl)+
qed

lemma pointer_dirr_range:
  "t \<noteq> NaN \<Longrightarrow> \<exists>a. pointer_dirr t = Fin a \<and> 0 \<le> a \<and> a \<le> 90"
proof (cases t)
  case (Fin r)
  have "0 \<le> \<bar>fl64 (arctan r)\<bar>" "\<bar>fl64 (arctan r)\<bar> \<le> 884279719003555 / 2 ^ 49"
    using atan_upper [of r] atan_lower [of r] by simp_all
  from degrees_range [OF this] show ?thesis
    by (simp add: Fin pointer_dirr_def)
qed (simp_all add: pointer_dirr_infinite)

lemma np_add_range:
  assumes "0 \<le> a" and "a \<le> 90" and "c \<in> {0, 180, 270}"
  shows "\<exists>b. np_add (Fin a) c = Fin b \<and> (0 \<le> b \<and> b \<le> 90 \<or> 180 \<le> b \<and> b \<le> 360)"
proof -
  have s: "\<bar>a + c\<bar> < 2 ^ 50" using assms by auto
  consider "c = 0" | "c = 180" | "c = 270" using assms(3) by auto
  then show ?thesis
  proof cases
    case 1
    have "a + c \<le> real_of_int 90" "0 \<le> a + c" using assms 1 by simp_all
    with s have "fl64 (a + c) \<le> real_of_int 90" "0 \<le> fl64 (a + c)"
      using fl64_le_grid [of "a + c" 90] fl64_nonneg [of "a + c"] by blast+
    then show ?thesis by simp
  next
    case 2
    have "a + c \<le> real_of_int 360" "real_of_int 180 \<le> a + c" using assms 2 by simp_all
    with s have "fl64 (a + c) \<le> real_of_int 360" "real_of_int 180 \<le> fl64 (a + c)"
      using fl64_le_grid [of "a + c" 360] fl64_ge_grid [of "a + c" 180] by blast+
    then show ?thesis by simp
  next
    case 3
    have "a + c \<le> real_of_int 360" "real_of_int 180 \<le> a + c" using assms 3 by simp_all
    with s have "fl64 (a + c) \<le> real_of_int 360" "real_of_int 180 \<le> fl64 (a + c)"
      using fl64_le_grid [of "a + c" 360] fl64_ge_grid [of "a + c" 180] by blast+
    then show ?thesis by simp
  qed
qed

lemma format_1f_range:
  "0 \<le> b \<and> b \<le> 90 \<or> 180 \<le> b \<and> b \<le> 360 \<Longrightarrow>
   0 \<le> format_1f b \<and> format_1f b \<le> 90 \<or> 180 \<le> format_1f b \<and> format_1f b \<le> 360"
proof (elim disjE conjE)
  assume "0 \<le> b" "b \<le> 90"
  then have "real_of_int 0 \<le> b * 10" "b * 10 \<le> real_of_int 900" by simp_all
  then have "0 \<le> rne (b * 10)" "rne (b * 10) \<le> 900" by (simp_all only: rne_ge rne_le)
  then show ?thesis by (simp add: format_1f_def)
next
  assume "180 \<le> b" "b \<le> 360"
  then have "real_of_int 1800 \<le> b * 10" "b * 10 \<le> real_of_int 3600" by simp_all
  then have "1800 \<le> rne (b * 10)" "rne (b * 10) \<le> 3600" by (simp_all only: rne_ge rne_le)
  then show ?thesis by (simp add: format_1f_def)
qed

lemma np_div64_not_nan:
  "np_div64 (fl64 (n - p)) (fl64 (1 + fl64 (n * p))) \<noteq> NaN"
proof
  assume "np_div64 (fl64 (n - p)) (fl64 (1 + fl64 (n * p))) = NaN"
  then have z: "fl64 (1 + fl64 (n * p)) = 0" "fl64 (n - p) = 0"
    by (auto simp: np_div64_def split: if_splits)
  then have "n = p" "1 + fl64 (n * p) = 0"
    by (simp_all add: fl64_def fl_eq_0_iff)
  then have "fl64 (p * p) = - 1" by simp
  moreover have "0 \<le> fl64 (p * p)" by (intro fl64_nonneg) simp
  ultimately show False by simp
qed

section \<open>Distances of pixels without overflow\<close>

lemma square_bound: "\<bar>d\<bar> \<le> 32767 \<Longrightarrow> d\<^sup>2 \<le> 1073676289" for d :: int
  using power2_le_iff_abs_le [of 32767 d] by simp

lemma edge_sq_range:
  assumes "in_pixel_range a" and "in_pixel_range b"
  shows "0 \<le> edge_sq a b" and "edge_sq a b < 2147483648"
proof -
  show "0 \<le> edge_sq a b" by (simp add: edge_sq_def)
  have "\<bar>fst a - fst b\<bar> \<le> 32767" "\<bar>snd a - snd b\<bar> \<le> 32767"
    using assms unfolding in_pixel_range_def by linarith+
  then have "(fst a - fst b)\<^sup>2 \<le> 1073676289" "(snd a - snd b)\<^sup>2 \<le> 1073676289"
    by (simp_all only: square_bound)
  then show "edge_sq a b < 2147483648" by (simp add: edge_sq_def)
qed

lemma distance_int32_in_range:
  assumes "in_pixel_range a" and "in_pixel_range b"
  shows "distance_of_points Int32 a b = Fin (fl64 (sqrt (real_of_int (edge_sq a b))))"
proof -
  have d: "\<bar>fst a - fst b\<bar> \<le> 32767" "\<bar>snd a - snd b\<bar> \<le> 32767"
    using assms unfolding in_pixel_range_def by linarith+
  then have w: "wrap32 (fst a - fst b) = fst a - fst b" "wrap32 (snd a - snd b) = snd a - snd b"
    by (intro wrap32_id; linarith)+
  have q: "(fst a - fst b)\<^sup>2 \<le> 1073676289" "(snd a - snd b)\<^sup>2 \<le> 1073676289"
    using d by (simp_all only: square_bound)
  have n: "0 \<le> (fst a - fst b)\<^sup>2" "0 \<le> (snd a - snd b)\<^sup>2" by simp_all
  have w2: "wrap32 ((fst a - fst b)\<^sup>2) = (fst a - fst b)\<^sup>2"
    "wrap32 ((snd a - snd b)\<^sup>2) = (snd a - snd b)\<^sup>2"
    using q n by (intro wrap32_id; linarith)+
  have w3: "wrap32 ((fst a - fst b)\<^sup>2 + (snd a - snd b)\<^sup>2) = edge_sq a b"
    unfolding edge_sq_def using q n by (intro wrap32_id; linarith)
  show ?thesis
    using edge_sq_range(1) [OF assms]
    by (simp add: distance_of_points_def Let_def w w2 w3)
qed

lemma fl64_error: "\<bar>fl64 x - x\<bar> \<le> \<bar>x\<bar> / 2 ^ 53"
  unfolding fl64_def by (rule fl_error)

lemma fl64_sqrt_less:
  assumes "0 \<le> s" and "s < t" and "t < 4294967296"
  shows "fl64 (sqrt (real_of_int s)) < fl64 (sqrt (real_of_int t))"
proof -
  let ?x = "sqrt (real_of_int s)"
  let ?y = "sqrt (real_of_int t)"
  have x0: "0 \<le> ?x" using assms(1) by simp
  have xy: "?x < ?y" using assms(2) by simp
  have "real_of_int t < 65536\<^sup>2" using assms(3) by simp
  then have y: "?y < 65536" using assms(1,2) by (intro real_less_lsqrt) simp_all
  have "(?y - ?x) * (?y + ?x) = ?y\<^sup>2 - ?x\<^sup>2" by (simp add: algebra_simps power2_eq_square)
  also have "\<dots> = real_of_int (t - s)" using assms(1,2) by simp
  also have "\<dots> \<ge> 1" using assms(2) by simp
  finally have p: "1 \<le> (?y - ?x) * (?y + ?x)" .
  have sum: "?y + ?x \<le> 131072" using xy y by linarith
  have pos: "0 \<le> ?y - ?x" using xy by linarith
  have "(?y - ?x) * (?y + ?x) \<le> (?y - ?x) * 131072"
    using sum pos by (rule mult_left_mono)
  with p have "1 \<le> (?y - ?x) * 131072" by (rule order_trans)
  then have gap: "1 / 131072 \<le> ?y - ?x" by (simp add: field_simps)
  have ax: "\<bar>?x\<bar> \<le> 65536" "\<bar>?y\<bar> \<le> 65536" using x0 xy y by linarith+
  have "\<bar>fl64 ?x - ?x\<bar> \<le> \<bar>?x\<bar> / 2 ^ 53" "\<bar>fl64 ?y - ?y\<bar> \<le> \<bar>?y\<bar> / 2 ^ 53"
    by (rule fl64_error)+
  moreover have "\<bar>?x\<bar> / 2 ^ 53 \<le> 65536 / 2 ^ 53" "\<bar>?y\<bar> / 2 ^ 53 \<le> 65536 / 2 ^ 53"
    using ax by (intro divide_right_mono; simp)+
  ultimately have e: "fl64 ?x \<le> ?x + 65536 / 2 ^ 53" "?y - 65536 / 2 ^ 53 \<le> fl64 ?y"
    by linarith+
  have "(65536 / 2 ^ 53 :: real) + 65536 / 2 ^ 53 < 1 / 131072" by simp
  with gap e show ?thesis by linarith
qed

lemma fl64_sqrt_le_iff:
  assumes "0 \<le> s" "s < 4294967296" "0 \<le> t" "t < 4294967296"
  shows "(fl64 (sqrt (real_of_int s)) \<le> fl64 (sqrt (real_of_int t))) = (s \<le> t)"
proof (cases "s \<le> t")
  case True
  then consider "s = t" | "s < t" by linarith
  then show ?thesis
  proof cases
    case 1
    then show ?thesis by simp
  next
    case 2
    with fl64_sqrt_less [OF assms(1) 2 assms(4)] True show ?thesis by simp
  qed
next
  case False
  then have "t < s" by simp
  with fl64_sqrt_less [OF assms(3) this assms(2)] False show ?thesis by simp
qed

lemma py_min3_fin:
  "py_min3 (Fin a) (Fin b) (Fin c) = Fin (min a (min b c))"
  by (auto simp: py_min3_def Let_def min_def)

lemma half_int:
  assumes "0 \<le> a" "a < 32768" "0 \<le> b" "b < 32768"
  shows "py_int (fl64 (real_of_int (wrap32 (a + b)) / 2)) = (a + b) div 2"
proof -
  have w: "wrap32 (a + b) = a + b" using assms by (intro wrap32_id) linarith+
  have "\<bar>real_of_int (a + b)\<bar> < 2 ^ 53" using assms by simp
  then have "fl 53 (real_of_int (a + b) / 2 ^ 1) = real_of_int (a + b) / 2 ^ 1"
    by (rule fl_dyadic)
  then have f: "fl64 (real_of_int (a + b) / 2) = real_of_int (a + b) / 2"
    by (simp add: fl64_def)
  have "0 \<le> real_of_int (a + b) / 2" using assms by simp
  then have "py_int (real_of_int (a + b) / 2) = \<lfloor>real_of_int (a + b) / real_of_int 2\<rfloor>"
    by (simp add: py_int_def)
  also have "\<dots> = (a + b) div 2" by (rule floor_divide_of_int_eq)
  finally show ?thesis by (simp only: w f)
qed

lemma apex_in_range:
  assumes r: "in_pixel_range p1" "in_pixel_range p2" "in_pixel_range p3"
  shows "apex_and_midpoint p1 p2 p3 =
     (if edge_sq p1 p2 \<le> edge_sq p1 p3 \<and> edge_sq p1 p2 \<le> edge_sq p2 p3 then
        (fst p3, snd p3, (fst p1 + fst p2) div 2, (snd p1 + snd p2) div 2)
      else if edge_sq p1 p3 \<le> edge_sq p1 p2 \<and> edge_sq p1 p3 \<le> edge_sq p2 p3 then
        (fst p2, snd p2, (fst p1 + fst p3) div 2, (snd p1 + snd p3) div 2)
      else
        (fst p1, snd p1, (fst p3 + fst p2) div 2, (snd p3 + snd p2) div 2))"
proof -
  let ?d1 = "fl64 (sqrt (real_of_int (edge_sq p1 p2)))"
  let ?d2 = "fl64 (sqrt (real_of_int (edge_sq p1 p3)))"
  let ?d3 = "fl64 (sqrt (real_of_int (edge_sq p2 p3)))"
  note b = edge_sq_range [OF r(1) r(2)] edge_sq_range [OF r(1) r(3)] edge_sq_range [OF r(2) r(3)]
  have big: "edge_sq p1 p2 < 4294967296" "edge_sq p1 p3 < 4294967296" "edge_sq p2 p3 < 4294967296"
    using b by linarith+
  have c: "(?d1 \<le> ?d2) = (edge_sq p1 p2 \<le> edge_sq p1 p3)"
    "(?d1 \<le> ?d3) = (edge_sq p1 p2 \<le> edge_sq p2 p3)"
    "(?d2 \<le> ?d1) = (edge_sq p1 p3 \<le> edge_sq p1 p2)"
    "(?d2 \<le> ?d3) = (edge_sq p1 p3 \<le> edge_sq p2 p3)"
    using b big by (simp_all add: fl64_sqrt_le_iff)
  have e1: "(?d1 = min ?d1 (min ?d2 ?d3)) = (edge_sq p1 p2 \<le> edge_sq p1 p3 \<and> edge_sq p1 p2 \<le> edge_sq p2 p3)"
    unfolding c(1,2) [symmetric] by (auto simp: min_def)
  have e2: "(?d2 = min ?d1 (min ?d2 ?d3)) = (edge_sq p1 p3 \<le> edge_sq p1 p2 \<and> edge_sq p1 p3 \<le> edge_sq p2 p3)"
    unfolding c(3,4) [symmetric] by (auto simp: min_def)
  have h: "py_int (fl64 (real_of_int (wrap32 (fst p1 + fst p2)) / 2)) = (fst p1 + fst p2) div 2"
    "py_int (fl64 (real_of_int (wrap32 (snd p1 + snd p2)) / 2)) = (snd p1 + snd p2) div 2"
    "py_int (fl64 (real_of_int (wrap32 (fst p1 + fst p3)) / 2)) = (fst p1 + fst p3) div 2"
    "py_int (fl64 (real_of_int (wrap32 (snd p1 + snd p3)) / 2)) = (snd p1 + snd p3) div 2"
    "py_int (fl64 (real_of_int (wrap32 (fst p3 + fst p2)) / 2)) = (fst p3 + fst p2) div 2"
    "py_int (fl64 (real_of_int (wrap32 (snd p3 + snd p2)) / 2)) = (snd p3 + snd p2) div 2"
    using r unfolding in_pixel_range_def by (simp_all add: half_int)
  show ?thesis
    unfolding apex_and_midpoint_def
      distance_int32_in_range [OF r(1) r(2)] distance_int32_in_range [OF r(1) r(3)]
      distance_int32_in_range [OF r(2) r(3)] py_min3_fin Let_def np_eq.simps e1 e2
    by (simp add: h)
qed

lemma left_above_apex: "apex_and_midpoint (2, 9) (4, 7) (0, 0) = (0, 0, 3, 8)"
  by (simp add: apex_in_range in_pixel_range_def edge_sq_def)

lemma perpendicular_apex: "apex_and_midpoint (98, 396) (102, 400) (111, 389) = (111, 389, 100, 398)"
  by (simp add: apex_in_range in_pixel_range_def edge_sq_def)

section \<open>The program on particular inputs\<close>

lemma fl64_int: "x \<in> \<int> \<Longrightarrow> \<bar>x\<bar> < 9007199254740992 \<Longrightarrow> fl64 x = x"
proof -
  assume "x \<in> \<int>" and b: "\<bar>x\<bar> < 9007199254740992"
  then obtain M where x: "x = real_of_int M" by (auto elim: Ints_cases)
  have "\<bar>real_of_int M\<bar> < 2 ^ 53" using b x by simp
  then show ?thesis unfolding x fl64_def by (rule fl_of_int)
qed

lemma fl32_int: "x \<in> \<int> \<Longrightarrow> \<bar>x\<bar> < 16777216 \<Longrightarrow> fl32 x = x"
proof -
  assume "x \<in> \<int>" and b: "\<bar>x\<bar> < 16777216"
  then obtain M where x: "x = real_of_int M" by (auto elim: Ints_cases)
  have "\<bar>real_of_int M\<bar> < 2 ^ 24" using b x by simp
  then show ?thesis unfolding x fl32_def by (rule fl_of_int)
qed

lemma rne_int: "q \<in> \<int> \<Longrightarrow> real_of_int (rne q) = q"
  by (auto elim!: Ints_cases simp: rne_of_int)


text \<open>The wrapped triangle.\<close>

lemma wrapped_distance:
  "distance_of_points Int32 (0, 0) (65536, 0) = Fin 0"
  "distance_of_points Int32 (0, 0) (32768, 1) = Fin (fl64 (sqrt 1073741825))"
  "distance_of_points Int32 (65536, 0) (32768, 1) = Fin (fl64 (sqrt 1073741825))"
  "distance_of_points Int32 (0, 0) (46341, 0) = NaN"
  by (simp_all add: distance_of_points_def wrap32_def Let_def fl64_def fl_zero)


text \<open>The quadrilateral of 5000 by 3000 pixels.\<close>

lemma fl32_big: "fl32 25000000 = 25000000" "fl32 25010000 = 25010000"
  using fl_pow2 [of 390625 24 6] fl_pow2 [of 1563125 24 4] by (simp_all add: fl32_def)

lemma fl32_sqrt_25010000: "fl32 (sqrt 25010000) = 5001"
proof -
  have l: "5001 - 1 / 4096 < sqrt 25010000" by (rule real_less_rsqrt) (simp add: power2_eq_square)
  have u: "sqrt 25010000 < 5001" by (rule real_less_lsqrt) simp_all
  have a: "2 powr real_of_int 12 \<le> \<bar>sqrt 25010000\<bar>" using l by simp
  have b: "\<bar>sqrt 25010000\<bar> < 2 powr (real_of_int 12 + 1)" using u by simp
  have c: "\<bar>sqrt 25010000 / 2 powr real_of_int (12 - int 24 + 1) - real_of_int 10242048\<bar> < 1 / 2"
    using l u by (intro abs_diff_less_half) (simp_all add: powr_minus field_simps)
  show ?thesis
    unfolding fl32_def fl_eval [OF a b c] by (simp add: powr_minus)
qed

lemma wide_distance:
  "distance_of_points Float32 (5100, 3200) (100, 3100) = Fin 5001"
  "distance_of_points Float32 (5100, 200) (100, 100) = Fin 5001"
  "distance_of_points Float32 (5100, 200) (5100, 3200) = Fin 3000"
  "distance_of_points Float32 (100, 100) (100, 3100) = Fin 3000"
proof -
  have s: "sqrt 9000000 = 3000" by (rule real_sqrt_unique) simp_all
  show "distance_of_points Float32 (5100, 3200) (100, 3100) = Fin 5001"
    "distance_of_points Float32 (5100, 200) (100, 100) = Fin 5001"
    "distance_of_points Float32 (5100, 200) (5100, 3200) = Fin 3000"
    "distance_of_points Float32 (100, 100) (100, 3100) = Fin 3000"
    by (simp_all add: distance_of_points_def Let_def fl32_int fl32_big fl32_sqrt_25010000 s)
qed



text \<open>The slopes 1 and -1, and the slopes 1 and 9/4.\<close>

lemma perpendicular_tangent: "angle_tangent 111 389 100 398 400 = Inr PInf"
  by (simp add: angle_tangent_def get_slope_def Let_def fl64_int np_div64_def)

lemma perpendicular_bearing: "bearing 111 389 100 398 400 = Inr (Fin 90)"
  by (simp add: bearing_def perpendicular_tangent pointer_dirr_infinite quadrant_correction_def
      fl64_int)

lemma format_90: "format_1f 90 = 90"
  using rne_of_int [of 900] by (simp add: format_1f_def)

lemma fl64_quarters: "fl64 (9 / 4) = 9 / 4" "fl64 (- (5 / 4)) = - (5 / 4)" "fl64 (13 / 4) = 13 / 4"
  using fl_dyadic [of 9 53 2] fl_dyadic [of "- 5" 53 2] fl_dyadic [of 13 53 2]
  by (simp_all add: fl64_def)

lemma left_above_tangent: "angle_tangent 0 0 3 8 10 = Inr (Fin (fl64 (- 5 / 13)))"
  by (simp add: angle_tangent_def get_slope_def Let_def fl64_int fl64_quarters np_div64_def)

lemma fl64_neg: "x < 0 \<Longrightarrow> fl64 x < 0"
  unfolding fl64_def by (rule fl_neg) simp

lemma pi_above_double: "884279719003555 / 2 ^ 48 < pi"
proof -
  have l: "(\<Sum>i<2 * 6. (- 1) ^ i * (1 / real (i * 2 + 1) * (1 / 5) ^ (i * 2 + 1))) \<le> arctan (1 / 5)"
    by (rule arctan_series_bounds(1)) simp_all
  have u: "arctan (1 / 239) \<le> (\<Sum>i<2 * 1 + 1. (- 1) ^ i * (1 / real (i * 2 + 1) * (1 / 239) ^ (i * 2 + 1)))"
    by (rule arctan_series_bounds(2)) simp_all
  have "884279719003555 / 2 ^ 48 <
      16 * (\<Sum>i<2 * 6. (- 1) ^ i * (1 / real (i * 2 + 1) * (1 / 5) ^ (i * 2 + 1)))
      - 4 * (\<Sum>i<2 * 1 + 1. (- 1) ^ i * (1 / real (i * 2 + 1) * (1 / 239) ^ (i * 2 + 1)))"
    by (simp add: lessThan_nat_numeral lessThan_Suc power_divide)
  also have "\<dots> \<le> pi"
    unfolding pi_machin using u l by linarith
  finally show ?thesis .
qed

lemma arctan_le_self: "0 < x \<Longrightarrow> x \<le> 1 \<Longrightarrow> arctan x \<le> x"
  using arctan_series_bounds(2) [of x 0] by simp

lemma atan_saturates:
  assumes "2 ^ 53 \<le> r"
  shows "fl64 (arctan r) = 884279719003555 / 2 ^ 49"
proof -
  have r: "0 < r" using assms by (rule less_le_trans [rotated]) simp
  have i: "1 / r \<le> 1 / 2 ^ 53" using assms by (simp add: field_simps)
  have "arctan (1 / r) = pi / 2 - arctan r"
    using arctan_inverse [of r] r by simp
  moreover have "arctan (1 / r) \<le> 1 / r"
    using r i by (intro arctan_le_self) simp_all
  ultimately have "pi / 2 - 1 / 2 ^ 53 \<le> arctan r" using i by linarith
  then have l: "884279719003555 / 2 ^ 49 - 1 / 2 ^ 53 < arctan r"
    using pi_above_double by simp
  have u: "arctan r < 14148475504056881 / 2 ^ 53"
    using arctan_ubound [of r] pi_upper by simp
  have a: "2 powr real_of_int 0 \<le> \<bar>arctan r\<bar>" using l by simp
  have b: "\<bar>arctan r\<bar> < 2 powr (real_of_int 0 + 1)" using u l by simp
  have c: "\<bar>arctan r / 2 powr real_of_int (0 - int 53 + 1) - real_of_int 7074237752028440\<bar> < 1 / 2"
    using l u by (intro abs_diff_less_half) (simp_all add: powr_minus field_simps)
  show ?thesis
    unfolding fl64_def fl_eval [OF a b c] by (simp add: powr_minus)
qed

lemma pointer_dirr_large:
  assumes "2 ^ 53 \<le> r"
  shows "pointer_dirr (Fin r) = Fin 90"
proof -
  have "np_abs (math_atan (Fin r)) = Fin (884279719003555 / 2 ^ 49)"
    by (simp add: atan_saturates [OF assms])
  then have "pointer_dirr (Fin r) = math_degrees (Fin (884279719003555 / 2 ^ 49))"
    by (simp only: pointer_dirr_def)
  then show ?thesis
    by (simp only: math_degrees.simps degrees_half_pi)
qed

text \<open>The slopes 49 and -1/49.\<close>

lemma fl64_minus_49th: "fl64 (- (1 / 49)) = - (5882252574524729 / 2 ^ 58)"
proof -
  let ?x = "- (1 / 49) :: real"
  have a: "2 powr real_of_int (- 6) \<le> \<bar>?x\<bar>" by (simp add: powr_minus)
  have b: "\<bar>?x\<bar> < 2 powr (real_of_int (- 6) + 1)" by (simp add: powr_minus)
  have c: "\<bar>?x / 2 powr real_of_int (- 6 - int 53 + 1) - real_of_int (- 5882252574524729)\<bar> < 1 / 2"
    by (simp add: powr_minus abs_less_iff)
  show ?thesis
    unfolding fl64_def fl_eval [OF a b c] by (simp add: powr_minus)
qed

lemma fl64_product: "fl64 (49 * - (5882252574524729 / 2 ^ 58)) = - (9007199254740991 / 2 ^ 53)"
proof -
  let ?x = "49 * - (5882252574524729 / 2 ^ 58) :: real"
  have a: "2 powr real_of_int (- 1) \<le> \<bar>?x\<bar>" by (simp add: powr_minus)
  have b: "\<bar>?x\<bar> < 2 powr (real_of_int (- 1) + 1)" by (simp add: powr_minus)
  have c: "\<bar>?x / 2 powr real_of_int (- 1 - int 53 + 1) - real_of_int (- 9007199254740991)\<bar> < 1 / 2"
    by (simp add: powr_minus abs_less_iff)
  show ?thesis
    unfolding fl64_def fl_eval [OF a b c] by (simp add: powr_minus)
qed

lemma fl64_divisor: "fl64 (1 + - (9007199254740991 / 2 ^ 53)) = 1 / 2 ^ 53"
  using fl_dyadic [of 1 53 53] by (simp add: fl64_def)

lemma fl64_difference: "fl64 (49 - - (5882252574524729 / 2 ^ 58)) = 6899009123050977 / 2 ^ 47"
proof -
  let ?x = "49 - - (5882252574524729 / 2 ^ 58) :: real"
  have a: "2 powr real_of_int 5 \<le> \<bar>?x\<bar>" by simp
  have b: "\<bar>?x\<bar> < 2 powr (real_of_int 5 + 1)" by simp
  have c: "\<bar>?x / 2 powr real_of_int (5 - int 53 + 1) - real_of_int 6899009123050977\<bar> < 1 / 2"
    by (simp add: powr_minus abs_less_iff)
  show ?thesis
    unfolding fl64_def fl_eval [OF a b c] by (simp add: powr_minus)
qed

lemma fl64_quotient: "fl64 (6899009123050977 / 2 ^ 47 / (1 / 2 ^ 53)) = 441536583875262528"
  using fl_pow2 [of 6899009123050977 53 6] by (simp add: fl64_def)

lemma east_tangent: "angle_tangent 60 50 10 50 100 = Inr (Fin 441536583875262528)"
proof -
  have p: "fl64 (- (288230376151711721 / 288230376151711744)) = - (9007199254740991 / 2 ^ 53)"
    using fl64_product by simp
  have d: "fl64 (14129170684008400185 / 288230376151711744) = 6899009123050977 / 2 ^ 47"
    using fl64_difference by simp
  have o: "fl64 (1 / 9007199254740992) = 1 / 9007199254740992"
    using fl_dyadic [of 1 53 53] by (simp add: fl64_def)
  have q: "fl64 441536583875262528 = 441536583875262528"
    using fl64_quotient by simp
  show ?thesis
    unfolding angle_tangent_def
    by (simp add: get_slope_def Let_def fl64_int fl64_minus_49th p d o q np_div64_def)
qed

lemma east_bearing: "bearing 60 50 10 50 100 = Inr (Fin 90)"
  by (simp add: bearing_def east_tangent pointer_dirr_large quadrant_correction_def fl64_int)

section \<open>Distances and slopes\<close>

lemma edge_sq_commute: "edge_sq a b = edge_sq b a"
  by (simp add: edge_sq_def power2_commute)

lemma edge_sq_zero_iff: "(edge_sq a b = 0) = (a = b)"
proof
  assume "edge_sq a b = 0"
  then have "fst a - fst b = 0" and "snd a - snd b = 0"
    by (simp_all add: edge_sq_def sum_power2_eq_zero_iff)
  then show "a = b" by (simp add: prod_eq_iff)
next
  assume "a = b"
  then show "edge_sq a b = 0" by (simp add: edge_sq_def)
qed

lemma fl32_nonneg: "0 \<le> x \<Longrightarrow> 0 \<le> fl32 x"
  unfolding fl32_def by (rule fl_nonneg) simp

lemma fl32_eq_0_iff: "(fl32 x = 0) = (x = 0)"
  unfolding fl32_def by (rule fl_eq_0_iff) simp

lemma fl64_eq_0_iff: "(fl64 x = 0) = (x = 0)"
  unfolding fl64_def by (rule fl_eq_0_iff) simp

lemma distance_float32_in_range:
  assumes "in_pixel_range a" and "in_pixel_range b"
  shows "distance_of_points Float32 a b =
     Fin (fl32 (sqrt (fl32 (fl32 ((real_of_int (fst a - fst b))\<^sup>2)
                          + fl32 ((real_of_int (snd a - snd b))\<^sup>2)))))"
proof -
  have c: "fl32 (real_of_int k) = real_of_int k" if "\<bar>k\<bar> < 32768" for k
  proof -
    have "\<bar>real_of_int k\<bar> < 2 ^ 24" using that by simp
    then show ?thesis unfolding fl32_def by (rule fl_of_int)
  qed
  have r: "\<bar>fst a\<bar> < 32768" "\<bar>fst b\<bar> < 32768" "\<bar>snd a\<bar> < 32768" "\<bar>snd b\<bar> < 32768"
    "\<bar>fst a - fst b\<bar> < 32768" "\<bar>snd a - snd b\<bar> < 32768"
    using assms unfolding in_pixel_range_def by linarith+
  have d: "fl32 (real_of_int (fst a) - real_of_int (fst b)) = real_of_int (fst a - fst b)"
    "fl32 (real_of_int (snd a) - real_of_int (snd b)) = real_of_int (snd a - snd b)"
    using c [OF r(5)] c [OF r(6)] by simp_all
  show ?thesis
    unfolding distance_of_points_def dtype.case Let_def c [OF r(1)] c [OF r(2)] c [OF r(3)]
      c [OF r(4)] d
    by (rule refl)
qed

lemma float32_zero_iff:
  "(fl32 (sqrt (fl32 (fl32 (x\<^sup>2) + fl32 (y\<^sup>2)))) = 0) = (x = 0 \<and> y = 0)"
proof -
  have n: "0 \<le> fl32 (x\<^sup>2)" "0 \<le> fl32 (y\<^sup>2)"
    by (simp_all add: fl32_nonneg)
  have "(fl32 (x\<^sup>2) + fl32 (y\<^sup>2) = 0) = (fl32 (x\<^sup>2) = 0 \<and> fl32 (y\<^sup>2) = 0)"
    using n by linarith
  then show ?thesis
    by (simp add: fl32_eq_0_iff)
qed

text \<open>
  Claim C8, as amended. For every pair of points \<open>a\<close> and \<open>b\<close> whose coordinates are pixel
  coordinates below \<open>2^15\<close>, given as rows of 32-bit integers or as rows of
  single-precision floats, \<open>distance_of_points a b\<close> is a finite number, it equals
  \<open>distance_of_points b a\<close>, and it equals zero if and only if \<open>a\<close> equals \<open>b\<close>.
\<close>

theorem distance_of_points_symmetric_zero:
  "in_pixel_range a \<Longrightarrow> in_pixel_range b \<Longrightarrow>
   (\<exists>d. distance_of_points dt a b = Fin d \<and> distance_of_points dt b a = Fin d) \<and>
   np_eq (distance_of_points dt a b) (distance_of_points dt b a) \<and>
   np_eq (distance_of_points dt a b) (Fin 0) = (a = b)"
proof -
  assume r: "in_pixel_range a" "in_pixel_range b"
  have z: "(a = b) = (fst a = fst b \<and> snd a = snd b)"
    by (rule prod_eq_iff)
  show ?thesis
  proof (cases dt)
    case Int32
    have e: "distance_of_points Int32 a b = Fin (fl64 (sqrt (real_of_int (edge_sq a b))))"
      "distance_of_points Int32 b a = Fin (fl64 (sqrt (real_of_int (edge_sq a b))))"
      using distance_int32_in_range [OF r] distance_int32_in_range [OF r(2) r(1)]
      by (simp_all add: edge_sq_commute)
    show ?thesis
      unfolding Int32 e using edge_sq_range(1) [OF r]
      by (simp add: fl64_eq_0_iff edge_sq_zero_iff)
  next
    case Float32
    have m: "(real_of_int (fst b - fst a))\<^sup>2 = (real_of_int (fst a - fst b))\<^sup>2"
      "(real_of_int (snd b - snd a))\<^sup>2 = (real_of_int (snd a - snd b))\<^sup>2"
      by (simp_all add: power2_commute)
    show ?thesis
      unfolding Float32 distance_float32_in_range [OF r] distance_float32_in_range [OF r(2) r(1)] m
      by (simp add: float32_zero_iff z)
  qed
qed

theorem distance_of_points_symmetric_zero_witness:
  "in_pixel_range (100, 100) \<and> in_pixel_range (100, 3100) \<and>
   distance_of_points Float32 (100, 100) (100, 3100) = Fin 3000 \<and>
   np_eq (distance_of_points Float32 (100, 100) (100, 3100))
         (distance_of_points Float32 (100, 3100) (100, 100)) \<and>
   np_eq (distance_of_points Int32 (100, 100) (100, 100)) (Fin 0)"
  using distance_of_points_symmetric_zero [of "(100, 100)" "(100, 3100)" Float32]
    distance_of_points_symmetric_zero [of "(100, 100)" "(100, 100)" Int32]
  by (simp add: in_pixel_range_def wide_distance)

text \<open>
  The claim as the specification states it fails on rows of 32-bit integers with a
  coordinate difference of \<open>2^16\<close>, whose square wraps around to 0: the distance of the
  distinct points \<open>(0, 0)\<close> and \<open>(65536, 0)\<close> is 0. With a difference of 46341 the square
  wraps around to a negative number, the distance is a NaN, and a NaN is not equal to
  itself.
\<close>

theorem distance_of_points_wrap_counterexample:
  "distance_of_points Int32 (0, 0) (65536, 0) = Fin 0 \<and>
   np_eq (distance_of_points Int32 (0, 0) (65536, 0)) (Fin 0) \<and>
   (0, 0) \<noteq> ((65536, 0) :: point) \<and>
   distance_of_points Int32 (0, 0) (46341, 0) = NaN \<and>
   \<not> np_eq (distance_of_points Int32 (0, 0) (46341, 0))
            (distance_of_points Int32 (46341, 0) (0, 0))"
  by (simp add: wrapped_distance)

lemma get_slope_Inr: "\<exists>slope. get_slope x1 y1 x2 y2 = Inr slope"
  by (simp add: get_slope_def Let_def)

text \<open>
  Claim C10. \<open>get_slope\<close> is total: for every \<open>x1\<close>, \<open>y1\<close>, \<open>x2\<close>, \<open>y2\<close> it returns a slope
  and never reaches the division by zero; when \<open>x2\<close> equals \<open>x1\<close> it replaces \<open>x2\<close> by
  \<open>x2 + 1\<close>, the divisor is exactly 1, and the vertical line is reported with the slope
  \<open>(y2 - y1) / 1\<close> instead of an error.
\<close>

theorem get_slope_total:
  "(\<exists>slope. get_slope x1 y1 x2 y2 = Inr slope) \<and>
   get_slope x1 y1 x2 y2 \<noteq> Inl ZeroDivisionError \<and>
   (if x2 = x1 then x2 + 1 else x2) - x1 \<noteq> 0 \<and>
   (x1 + 1) - x1 = 1 \<and>
   get_slope x1 y1 x1 y2 = Inr (real_of_int (y2 - y1) / 1)"
  by (simp add: get_slope_def Let_def)

theorem get_slope_total_witness:
  "get_slope 101 399 101 400 = Inr 1 \<and> get_slope 111 389 101 399 = Inr (- 1) \<and>
   get_slope 4 9 4 2 = Inr (- 7)"
  using get_slope_total [of 101 399 101 400] get_slope_total [of 111 389 101 399]
    get_slope_total [of 4 9 4 2]
  by (simp add: get_slope_def)

section \<open>The contour extractor: an empty scene\<close>

lemma largest_contour_keeps:
  "snd st \<noteq> None \<Longrightarrow> snd (largest_contour contourArea cs st) \<noteq> None"
  by (induction contourArea cs st rule: largest_contour.induct) (auto simp: Let_def)

lemma largest_contour_first:
  "area_max < contourArea c \<Longrightarrow>
   snd (largest_contour contourArea (c # cs) (area_max, None)) \<noteq> None"
  by (simp add: largest_contour_keeps)

text \<open>A scene with a contour of non-negative area gives a polygon.\<close>

lemma find_vertices_returns:
  assumes "findContours im = c # cs" and "0 \<le> contourArea c"
  shows "\<exists>poly. find_vertices findContours contourArea arcLength approxPolyDP im = Inr poly"
proof -
  have "- 1 < contourArea c" using assms(2) by simp
  then have "snd (largest_contour contourArea (c # cs) (- 1, None)) \<noteq> None"
    by (rule largest_contour_first)
  then obtain a b where "largest_contour contourArea (c # cs) (- 1, None) = (a, Some b)"
    by (cases "largest_contour contourArea (c # cs) (- 1, None)") auto
  then show ?thesis
    by (simp add: find_vertices_def assms(1))
qed

text \<open>
  Claim C7, as amended. For every image whose segmentation yields no contour,
  \<open>find_vertices\<close> returns no polygon: the read of \<^verbatim>\<open>big_cntr\<close>, which was never
  assigned, stops the program with Python's \<^verbatim>\<open>UnboundLocalError\<close>. On no image does
  \<open>find_vertices\<close> signal a condition of its own for an empty scene.
\<close>

theorem find_vertices_empty_scene:
  "(findContours im = [] \<longrightarrow>
      find_vertices findContours contourArea arcLength approxPolyDP im
        = Inl UnboundLocalError) \<and>
   find_vertices findContours contourArea arcLength approxPolyDP im \<noteq> Inl NoObjectFound"
  by (simp add: find_vertices_def Let_def split: prod.splits option.splits)

theorem find_vertices_empty_scene_witness:
  "(\<lambda>im::nat. ([] :: point list list)) 7 = [] \<and>
   find_vertices (\<lambda>im::nat. []) (\<lambda>c::point list. 0) (\<lambda>c closed. 0) (\<lambda>c eps closed. c) 7
     = Inl UnboundLocalError"
  using find_vertices_empty_scene
    [of "\<lambda>im::nat. []" 7 "\<lambda>c::point list. 0" "\<lambda>c closed. 0" "\<lambda>c eps closed. c"]
  by simp

text \<open>
  The claim as the specification states it fails: on an image with no contour the
  outcome is the unbound-variable error, not the empty-scene condition.
\<close>

theorem find_vertices_scene_error_counterexample:
  "find_vertices (\<lambda>im::unit. []) (\<lambda>c::point list. 0) (\<lambda>c closed. 0) (\<lambda>c eps closed. c) ()
     = Inl UnboundLocalError \<and>
   find_vertices (\<lambda>im::unit. []) (\<lambda>c::point list. 0) (\<lambda>c closed. 0) (\<lambda>c eps closed. c) ()
     \<noteq> Inl NoObjectFound"
  by (simp add: find_vertices_def)

section \<open>The corner ordering\<close>

lemma first_min_bound: "first_min x xs \<le> length xs"
  by (induction x xs rule: first_min.induct) (auto simp: Let_def)

lemma first_max_bound: "first_max x xs \<le> length xs"
  by (induction x xs rule: first_max.induct) (auto simp: Let_def)

lemma first_min_least: "z \<in> set (x # xs) \<Longrightarrow> (x # xs) ! first_min x xs \<le> z"
proof (induction x xs arbitrary: z rule: first_min.induct)
  case (1 x)
  then show ?case by simp
next
  case (2 x y ys)
  then show ?case by (fastforce simp: Let_def)
qed

lemma first_max_greatest: "z \<in> set (x # xs) \<Longrightarrow> z \<le> (x # xs) ! first_max x xs"
proof (induction x xs arbitrary: z rule: first_max.induct)
  case (1 x)
  then show ?case by simp
next
  case (2 x y ys)
  then show ?case by (fastforce simp: Let_def)
qed

lemma first_min_map:
  assumes "\<And>a b. (g a \<le> g b) = (a \<le> b)"
  shows "first_min (g x) (map g xs) = first_min x xs"
proof (induction x xs rule: first_min.induct)
  case (1 x)
  then show ?case by simp
next
  case (2 x y ys)
  have "first_min y ys \<le> length ys" by (rule first_min_bound)
  then have "(g y # map g ys) ! first_min y ys = g ((y # ys) ! first_min y ys)"
    by (metis length_Cons less_Suc_eq_le list.simps(9) nth_map)
  with 2 assms show ?case by (simp add: Let_def)
qed

lemma first_max_map:
  assumes "\<And>a b. (g a \<le> g b) = (a \<le> b)"
  shows "first_max (g x) (map g xs) = first_max x xs"
proof (induction x xs rule: first_max.induct)
  case (1 x)
  then show ?case by simp
next
  case (2 x y ys)
  have "first_max y ys \<le> length ys" by (rule first_max_bound)
  then have "(g y # map g ys) ! first_max y ys = g ((y # ys) ! first_max y ys)"
    by (metis length_Cons less_Suc_eq_le list.simps(9) nth_map)
  with 2 assms show ?case by (simp add: Let_def)
qed

lemma order_points_Nil: "order_points [] = Inl ValueError"
  by (simp add: order_points_def argmin_def)

lemma order_points_Cons:
  "order_points (p # ps) =
     Inr [(p # ps) ! first_min (fst p + snd p) (map (\<lambda>q. fst q + snd q) ps),
          (p # ps) ! first_min (snd p - fst p) (map (\<lambda>q. snd q - fst q) ps),
          (p # ps) ! first_max (fst p + snd p) (map (\<lambda>q. fst q + snd q) ps),
          (p # ps) ! first_max (snd p - fst p) (map (\<lambda>q. snd q - fst q) ps)]"
  by (simp add: order_points_def argmin_def argmax_def Let_def numeral_eq_Suc)

lemma selected_least:
  "(p # ps) ! first_min (f p) (map f ps) \<in> set (p # ps) \<and>
   (\<forall>q\<in>set (p # ps). f ((p # ps) ! first_min (f p) (map f ps)) \<le> f q)"
proof -
  let ?i = "first_min (f p) (map f ps)"
  have "?i \<le> length (map f ps)" by (rule first_min_bound)
  then have i: "?i < length (p # ps)" by simp
  then have mem: "(p # ps) ! ?i \<in> set (p # ps)" by (rule nth_mem)
  have eq: "(f p # map f ps) ! ?i = f ((p # ps) ! ?i)"
    using i nth_map [of ?i "p # ps" f] by simp
  have "f ((p # ps) ! ?i) \<le> f q" if "q \<in> set (p # ps)" for q
  proof -
    from that have "f q \<in> set (f p # map f ps)" by auto
    then have "(f p # map f ps) ! ?i \<le> f q" by (rule first_min_least)
    with eq show ?thesis by simp
  qed
  with mem show ?thesis by blast
qed

lemma selected_greatest:
  "(p # ps) ! first_max (f p) (map f ps) \<in> set (p # ps) \<and>
   (\<forall>q\<in>set (p # ps). f q \<le> f ((p # ps) ! first_max (f p) (map f ps)))"
proof -
  let ?i = "first_max (f p) (map f ps)"
  have "?i \<le> length (map f ps)" by (rule first_max_bound)
  then have i: "?i < length (p # ps)" by simp
  then have mem: "(p # ps) ! ?i \<in> set (p # ps)" by (rule nth_mem)
  have eq: "(f p # map f ps) ! ?i = f ((p # ps) ! ?i)"
    using i nth_map [of ?i "p # ps" f] by simp
  have "f q \<le> f ((p # ps) ! ?i)" if "q \<in> set (p # ps)" for q
  proof -
    from that have "f q \<in> set (f p # map f ps)" by auto
    then have "f q \<le> (f p # map f ps) ! ?i" by (rule first_max_greatest)
    with eq show ?thesis by simp
  qed
  with mem show ?thesis by blast
qed

lemma least_same_set:
  assumes "set (q # qs) = set (p # ps)" and "single_least f (p # ps)"
  shows "(q # qs) ! first_min (f q) (map f qs) = (p # ps) ! first_min (f p) (map f ps)"
  using selected_least [of q qs f] selected_least [of p ps f] assms
  unfolding single_least_def by blast

lemma greatest_same_set:
  assumes "set (q # qs) = set (p # ps)" and "single_greatest f (p # ps)"
  shows "(q # qs) ! first_max (f q) (map f qs) = (p # ps) ! first_max (f p) (map f ps)"
  using selected_greatest [of q qs f] selected_greatest [of p ps f] assms
  unfolding single_greatest_def by blast

lemma order_points_permuted:
  assumes "mset qs = mset ps" and "extremes_unique ps"
  shows "order_points qs = order_points ps"
proof (cases ps)
  case Nil
  with assms(1) show ?thesis by simp
next
  case (Cons p ps')
  with assms(1) have "qs \<noteq> []" by auto
  then obtain q qs' where qs: "qs = q # qs'" by (cases qs) auto
  from assms(1) have s: "set (q # qs') = set (p # ps')"
    unfolding qs Cons by (rule mset_eq_setD)
  from assms(2) have u:
    "single_least (\<lambda>p. fst p + snd p) (p # ps')"
    "single_greatest (\<lambda>p. fst p + snd p) (p # ps')"
    "single_least (\<lambda>p. snd p - fst p) (p # ps')"
    "single_greatest (\<lambda>p. snd p - fst p) (p # ps')"
    unfolding extremes_unique_def Cons by blast+
  show ?thesis
    unfolding qs Cons order_points_Cons
    using least_same_set [OF s u(1)] greatest_same_set [OF s u(2)]
      least_same_set [OF s u(3)] greatest_same_set [OF s u(4)]
    by simp
qed

lemma order_points_map:
  assumes gs: "\<And>a b. (gs a \<le> gs b) = (a \<le> b)"
    and gd: "\<And>a b. (gd a \<le> gd b) = (a \<le> b)"
    and ts: "\<And>q. fst (T q) + snd (T q) = gs (fst q + snd q)"
    and td: "\<And>q. snd (T q) - fst (T q) = gd (snd q - fst q)"
  shows "order_points (map T ps) = map_sum id (map T) (order_points ps)"
proof (cases ps)
  case Nil
  then show ?thesis by (simp add: order_points_Nil)
next
  case (Cons p r)
  have ms: "map (\<lambda>q. fst q + snd q) (map T r) = map gs (map (\<lambda>q. fst q + snd q) r)"
    by (simp add: ts)
  have md: "map (\<lambda>q. snd q - fst q) (map T r) = map gd (map (\<lambda>q. snd q - fst q) r)"
    by (simp add: td)
  have nth: "(T p # map T r) ! i = T ((p # r) ! i)" if "i \<le> length r" for i
    using that nth_map [of i "p # r" T] by simp
  have b1: "first_min (fst p + snd p) (map (\<lambda>q. fst q + snd q) r) \<le> length r"
    using first_min_bound [of "fst p + snd p" "map (\<lambda>q. fst q + snd q) r"] by simp
  have b2: "first_min (snd p - fst p) (map (\<lambda>q. snd q - fst q) r) \<le> length r"
    using first_min_bound [of "snd p - fst p" "map (\<lambda>q. snd q - fst q) r"] by simp
  have b3: "first_max (fst p + snd p) (map (\<lambda>q. fst q + snd q) r) \<le> length r"
    using first_max_bound [of "fst p + snd p" "map (\<lambda>q. fst q + snd q) r"] by simp
  have b4: "first_max (snd p - fst p) (map (\<lambda>q. snd q - fst q) r) \<le> length r"
    using first_max_bound [of "snd p - fst p" "map (\<lambda>q. snd q - fst q) r"] by simp
  show ?thesis
    unfolding Cons list.map order_points_Cons ts td ms md
      first_min_map [of gs, OF gs] first_max_map [of gs, OF gs]
      first_min_map [of gd, OF gd] first_max_map [of gd, OF gd]
    by (simp add: nth b1 b2 b3 b4)
qed

lemma order_points_translate:
  "order_points (map (translate dx dy) ps) = map_sum id (map (translate dx dy)) (order_points ps)"
  by (rule order_points_map [where gs = "\<lambda>v. v + (dx + dy)" and gd = "\<lambda>v. v + (dy - dx)"])
     (simp_all add: translate_def algebra_simps)

lemma order_points_scale:
  assumes "0 < k"
  shows "order_points (map (scale k) ps) = map_sum id (map (scale k)) (order_points ps)"
  by (rule order_points_map [where gs = "\<lambda>v. k * v" and gd = "\<lambda>v. k * v"])
     (simp_all add: scale_def algebra_simps assms)

text \<open>
  Claim C3, as amended. For every non-empty list of corner points, \<open>order_points\<close>
  returns four of them: the first has the least \<open>x + y\<close> (top-left), the third the
  greatest \<open>x + y\<close> (bottom-right), the second the greatest \<open>x - y\<close>, which is the least
  \<open>y - x\<close> (top-right), and the fourth the least \<open>x - y\<close>, which is the greatest \<open>y - x\<close>
  (bottom-left).
\<close>

theorem order_points_labels:
  "points \<noteq> [] \<Longrightarrow>
   \<exists>topLeft topRight bottRight bottLeft.
     order_points points = Inr [topLeft, topRight, bottRight, bottLeft] \<and>
     topLeft \<in> set points \<and> topRight \<in> set points \<and>
     bottRight \<in> set points \<and> bottLeft \<in> set points \<and>
     (\<forall>q\<in>set points. fst topLeft + snd topLeft \<le> fst q + snd q) \<and>
     (\<forall>q\<in>set points. fst q + snd q \<le> fst bottRight + snd bottRight) \<and>
     (\<forall>q\<in>set points. fst q - snd q \<le> fst topRight - snd topRight) \<and>
     (\<forall>q\<in>set points. fst bottLeft - snd bottLeft \<le> fst q - snd q)"
proof -
  assume "points \<noteq> []"
  then obtain p ps where ps: "points = p # ps" by (cases points) auto
  let ?s = "\<lambda>q::'a \<times> 'a. fst q + snd q"
  let ?d = "\<lambda>q::'a \<times> 'a. snd q - fst q"
  note s1 = selected_least [of p ps ?s] and s2 = selected_greatest [of p ps ?s]
    and d1 = selected_least [of p ps ?d] and d2 = selected_greatest [of p ps ?d]
  have flip: "(snd a - fst a \<le> snd b - fst b) = (fst b - snd b \<le> fst a - snd a)"
    for a b :: "'a \<times> 'a"
    by (simp add: algebra_simps)
  show ?thesis
    unfolding ps order_points_Cons
    using s1 s2 d1 d2 by (simp add: flip)
qed

theorem order_points_labels_witness:
  "[(0, 0), (10, 0), (10, 5), (0, 5)] \<noteq> ([] :: point list) \<and>
   order_points [(0, 0), (10, 0), (10, 5), (0, 5)]
     = Inr [(0, 0), (10, 0), (10, 5), (0 :: int, 5 :: int)]"
  using order_points_labels [of "[(0, 0), (10, 0), (10, 5), (0 :: int, 5 :: int)]"]
  by (simp add: order_points_Cons)

text \<open>
  The claim as the specification states it fails on an upright rectangle: the point that
  \<open>order_points\<close> labels top-right is \<open>(10, 0)\<close>, whose \<open>x - y\<close> is the greatest, not the
  least.
\<close>

theorem order_points_labels_counterexample:
  "order_points [(0, 0), (10, 0), (10, 5), (0, 5)]
     = Inr [(0, 0), (10, 0), (10, 5), (0 :: int, 5 :: int)] \<and>
   \<not> claimed_labels [(0, 0), (10, 0), (10, 5), (0, 5)]
        [(0, 0), (10, 0), (10, 5), (0 :: int, 5 :: int)]"
  by (simp add: order_points_Cons claimed_labels_def)

text \<open>
  Claim C4, as amended. For every list of points in which the least and the greatest
  \<open>x + y\<close> and the least and the greatest \<open>y - x\<close> are each attained by a single point,
  \<open>order_points\<close> gives the same labelled points under any permutation of the input. For
  every list of points, translating all of them by the same vector, or scaling all of
  them by the same positive factor, leaves the labelling unchanged: the output is the
  translated (scaled) output.
\<close>

theorem order_points_invariance:
  "(mset qs = mset ps \<and> extremes_unique ps \<longrightarrow> order_points qs = order_points ps) \<and>
   order_points (map (translate dx dy) ps)
     = map_sum id (map (translate dx dy)) (order_points ps) \<and>
   (0 < k \<longrightarrow>
      order_points (map (scale k) ps) = map_sum id (map (scale k)) (order_points ps))"
  using order_points_permuted [of qs ps] order_points_translate [of dx dy ps]
    order_points_scale [of k ps]
  by blast

theorem order_points_invariance_witness:
  "mset [(0, 5), (10, 5), (0, 0), (10, 0)] = mset [(0, 0), (10, 0), (10, 5), (0 :: int, 5 :: int)] \<and>
   extremes_unique [(0, 0), (10, 0), (10, 5), (0 :: int, 5 :: int)] \<and>
   order_points [(0, 5), (10, 5), (0, 0), (10, 0)]
     = order_points [(0, 0), (10, 0), (10, 5), (0 :: int, 5 :: int)] \<and>
   order_points (map (translate 3 7) [(0, 0), (10, 0), (10, 5), (0 :: int, 5 :: int)])
     = Inr [(3, 7), (13, 7), (13, 12), (3, 12)] \<and>
   (0 :: int) < 2 \<and>
   order_points (map (scale 2) [(0, 0), (10, 0), (10, 5), (0 :: int, 5 :: int)])
     = Inr [(0, 0), (20, 0), (20, 10), (0, 10)]"
  using order_points_invariance
    [of "[(0, 5), (10, 5), (0, 0), (10, 0)]" "[(0, 0), (10, 0), (10, 5), (0 :: int, 5 :: int)]"
        3 7 2]
  by (simp add: order_points_Cons translate_def scale_def extremes_unique_def
      single_least_def single_greatest_def)

text \<open>
  The claim as the specification states it fails on a square standing on a corner: two
  of its corners have the same \<open>x + y\<close>, and the output depends on which of them comes
  first in the input.
\<close>

theorem order_points_permutation_counterexample:
  "convex_quad [(1, 0), (2, 1), (1, 2), (0, 1)] \<and>
   mset [(0, 1), (2, 1), (1, 2), (1, 0)] = mset [(1, 0), (2, 1), (1, 2), (0 :: int, 1 :: int)] \<and>
   order_points [(1, 0), (2, 1), (1, 2), (0 :: int, 1 :: int)]
     = Inr [(1, 0), (1, 0), (2, 1), (1, 2)] \<and>
   order_points [(0, 1), (2, 1), (1, 2), (1 :: int, 0 :: int)]
     = Inr [(0, 1), (2, 1), (2, 1), (0, 1)]"
  by (simp add: order_points_Cons convex_quad_def cross_def)

section \<open>The size of the rectified map\<close>









section \<open>The tip of the pointer\<close>





section \<open>The bearing\<close>

lemma quadrant_correction_values:
  "quadrant_correction mid_x mid_y xpos ypos t \<in> {0, 180, 270}"
  by (simp add: quadrant_correction_def)

lemma angle_tangent_Inr: "\<exists>t. angle_tangent xpos ypos mid_x mid_y map_width = Inr t"
  using get_slope_Inr [of "mid_x + 1" "mid_y + 1" "mid_x + 1" map_width]
    get_slope_Inr [of xpos ypos "mid_x + 1" "mid_y + 1"]
  by (auto simp: angle_tangent_def Let_def)

lemma angle_tangent_not_nan:
  "\<exists>t. angle_tangent xpos ypos mid_x mid_y map_width = Inr t \<and> t \<noteq> NaN"
  using get_slope_Inr [of "mid_x + 1" "mid_y + 1" "mid_x + 1" map_width]
    get_slope_Inr [of xpos ypos "mid_x + 1" "mid_y + 1"]
  by (auto simp: angle_tangent_def Let_def np_div64_not_nan)

lemma east_apex: "apex_and_midpoint (10, 45) (10, 55) (60, 50) = (60, 50, 10, 50)"
  by (simp add: apex_in_range in_pixel_range_def edge_sq_def)

text \<open>
  Claim C2, as amended. For every apex and base midpoint reaching the bearing step, the
  bearing is the unsigned angle plus a correction, and the correction is exactly: +180
  when the apex is left of the midpoint and in a lower pixel row (\<open>mid_y < ypos\<close>); +270
  when the apex is left of the midpoint, in the same or a higher pixel row
  (\<open>ypos \<le> mid_y\<close>), and the tangent is negative; +180 when the apex is left of the
  midpoint and in the same or a higher pixel row otherwise; and +0 when the apex is not
  left of the midpoint (\<open>mid_x \<le> xpos\<close>).
\<close>


theorem quadrant_correction_cases:
  "(\<exists>t. angle_tangent xpos ypos mid_x mid_y map_width = Inr t \<and>
        bearing xpos ypos mid_x mid_y map_width =
          Inr (np_add (pointer_dirr t) (quadrant_correction mid_x mid_y xpos ypos t))) \<and>
   (xpos < mid_x \<and> mid_y < ypos \<longrightarrow>
      quadrant_correction mid_x mid_y xpos ypos tangent = 180) \<and>
   (xpos < mid_x \<and> ypos \<le> mid_y \<and> np_lt0 tangent \<longrightarrow>
      quadrant_correction mid_x mid_y xpos ypos tangent = 270) \<and>
   (xpos < mid_x \<and> ypos \<le> mid_y \<and> \<not> np_lt0 tangent \<longrightarrow>
      quadrant_correction mid_x mid_y xpos ypos tangent = 180) \<and>
   (mid_x \<le> xpos \<longrightarrow> quadrant_correction mid_x mid_y xpos ypos tangent = 0)"
  using angle_tangent_Inr [of xpos ypos mid_x mid_y map_width]
  by (auto simp: bearing_def quadrant_correction_def)

theorem quadrant_correction_cases_witness:
  "quadrant_correction 3 8 0 9 (Fin 1) = 180 \<and>
   np_lt0 (Fin (- 5 / 13)) \<and> quadrant_correction 3 8 0 0 (Fin (- 5 / 13)) = 270 \<and>
   quadrant_correction 3 8 0 8 (Fin 1) = 180 \<and>
   quadrant_correction 3 8 3 0 (Fin (- 1)) = 0"
  using quadrant_correction_cases [of 0 9 3 8 10 "Fin 1"]
    quadrant_correction_cases [of 0 0 3 8 10 "Fin (- 5 / 13)"]
    quadrant_correction_cases [of 0 8 3 8 10 "Fin 1"]
    quadrant_correction_cases [of 3 0 3 8 10 "Fin (- 1)"]
  by simp

text \<open>
  The claim as the specification states it fails for an apex left of and above the base
  midpoint when the tangent is negative: the triangle \<open>(2, 9)\<close>, \<open>(4, 7)\<close>, \<open>(0, 0)\<close> on a
  map of width 10 has its apex at \<open>(0, 0)\<close>, the midpoint of its base at \<open>(3, 8)\<close> and as
  tangent the double nearest to \<open>- 5 / 13\<close>; the program adds 270, the claim says 180.
\<close>

theorem quadrant_correction_counterexample:
  "apex_and_midpoint (2, 9) (4, 7) (0, 0) = (0, 0, 3, 8) \<and>
   angle_tangent 0 0 3 8 10 = Inr (Fin (fl64 (- 5 / 13))) \<and>
   np_lt0 (Fin (fl64 (- 5 / 13))) \<and>
   quadrant_correction 3 8 0 0 (Fin (fl64 (- 5 / 13))) = 270 \<and>
   \<not> claimed_correction 3 8 0 0 (Fin (fl64 (- 5 / 13)))
        (quadrant_correction 3 8 0 0 (Fin (fl64 (- 5 / 13))))"
proof -
  have "fl64 (- 5 / 13) < 0" by (rule fl64_neg) simp
  then show ?thesis
    using left_above_apex left_above_tangent
    by (simp add: quadrant_correction_def claimed_correction_def)
qed

text \<open>
  Claim C9, as amended. For every input reaching the bearing computation the tangent is
  a number or an infinity, never a NaN; the unsigned angle in degrees is at least 0 and
  at most 90; the quadrant correction is 0, 180 or 270, never 90; and the bearing, the
  rounded sum of the two, lies in \<open>[0, 90]\<close> or in \<open>[180, 360]\<close>, as does the number that
  \<^verbatim>\<open>%.1f\<close> prints. The bounds 90 and 360 are closed: the angle reaches 90.
\<close>

theorem bearing_range:
  "\<exists>t a b.
     angle_tangent xpos ypos mid_x mid_y map_width = Inr t \<and> t \<noteq> NaN \<and>
     pointer_dirr t = Fin a \<and> 0 \<le> a \<and> a \<le> 90 \<and>
     quadrant_correction mid_x mid_y xpos ypos t \<in> {0, 180, 270} \<and>
     bearing xpos ypos mid_x mid_y map_width = Inr (Fin b) \<and>
     b = fl64 (a + quadrant_correction mid_x mid_y xpos ypos t) \<and>
     (0 \<le> b \<and> b \<le> 90 \<or> 180 \<le> b \<and> b \<le> 360) \<and>
     (0 \<le> format_1f b \<and> format_1f b \<le> 90 \<or> 180 \<le> format_1f b \<and> format_1f b \<le> 360)"
proof -
  obtain t where t: "angle_tangent xpos ypos mid_x mid_y map_width = Inr t" "t \<noteq> NaN"
    using angle_tangent_not_nan by blast
  obtain a where a: "pointer_dirr t = Fin a" "0 \<le> a" "a \<le> 90"
    using pointer_dirr_range [OF t(2)] by blast
  let ?c = "quadrant_correction mid_x mid_y xpos ypos t"
  have c: "?c \<in> {0, 180, 270}" by (rule quadrant_correction_values)
  obtain b where b: "np_add (Fin a) ?c = Fin b" "0 \<le> b \<and> b \<le> 90 \<or> 180 \<le> b \<and> b \<le> 360"
    using np_add_range [OF a(2) a(3) c] by blast
  have v: "b = fl64 (a + ?c)" using b(1) by (auto simp only: np_add.simps npfloat.inject)
  have g: "bearing xpos ypos mid_x mid_y map_width = Inr (Fin b)"
    by (simp add: bearing_def t(1) a(1) v)
  have f: "0 \<le> format_1f b \<and> format_1f b \<le> 90 \<or> 180 \<le> format_1f b \<and> format_1f b \<le> 360"
    using b(2) by (rule format_1f_range)
  show ?thesis
    apply (rule exI [of _ t], rule exI [of _ a], rule exI [of _ b])
    using t a c g v b(2) f apply blast
    done
qed

theorem bearing_range_witness:
  "angle_tangent 60 50 10 50 100 = Inr (Fin 441536583875262528) \<and>
   quadrant_correction 10 50 60 50 (Fin 441536583875262528) = 0 \<and>
   bearing 60 50 10 50 100 = Inr (Fin 90) \<and>
   format_1f 90 = 90"
  using bearing_range [of 60 50 10 50 100]
  by (simp add: east_tangent east_bearing format_90 quadrant_correction_def)

text \<open>
  The claim as the specification states it fails in two ways. When the pointer's axis is
  perpendicular to the north line of the program the divisor of the tangent is zero: for
  the triangle \<open>(98, 396)\<close>, \<open>(102, 400)\<close>, \<open>(111, 389)\<close> on a map 400 wide and 600 high
  the two slopes are 1 and \<open>- 1\<close>, the tangent is \<open>2 / 0\<close>, an infinity, and the bearing is
  exactly 90. When the divisor is not zero the angle still reaches 90: for the triangle
  \<open>(10, 45)\<close>, \<open>(10, 55)\<close>, \<open>(60, 50)\<close> on a map 100 wide and 80 high the slopes are 49
  and the double nearest to \<open>- 1 / 49\<close>, the divisor is \<open>2^-53\<close>, the tangent is the finite
  number 441536583875262528, its arc tangent rounds to the double of \<open>pi / 2\<close>, and the
  bearing is exactly 90, printed as 90.0.
\<close>

theorem bearing_perpendicular_counterexample:
  "apex_and_midpoint (98, 396) (102, 400) (111, 389) = (111, 389, 100, 398) \<and>
   angle_tangent 111 389 100 398 400 = Inr PInf \<and>
   bearing 111 389 100 398 400 = Inr (Fin 90) \<and>
   resolve [(0, 0), (0, 600), (400, 600), (400, 0)] [(98, 396), (102, 400), (111, 389)]
     = Inr ((Fin (111 / 400), Fin (211 / 600)), Fin 90) \<and>
   apex_and_midpoint (10, 45) (10, 55) (60, 50) = (60, 50, 10, 50) \<and>
   angle_tangent 60 50 10 50 100 = Inr (Fin 441536583875262528) \<and>
   bearing 60 50 10 50 100 = Inr (Fin 90) \<and>
   resolve [(0, 0), (0, 80), (100, 80), (100, 0)] [(10, 45), (10, 55), (60, 50)]
     = Inr ((Fin (3 / 5), Fin (3 / 8)), Fin 90) \<and>
   format_1f 90 = 90 \<and>
   \<not> in_claimed_range 90"
proof -
  have r: "resolve [(0, 0), (0, 600), (400, 600), (400, 0)] [(98, 396), (102, 400), (111, 389)]
      = Inr ((Fin (111 / 400), Fin (211 / 600)), Fin 90)"
    by (simp add: resolve_def map_size_def perpendicular_apex perpendicular_bearing position_def np_div_def)
  have e: "resolve [(0, 0), (0, 80), (100, 80), (100, 0)] [(10, 45), (10, 55), (60, 50)]
      = Inr ((Fin (3 / 5), Fin (3 / 8)), Fin 90)"
    by (simp add: resolve_def map_size_def east_apex east_bearing position_def np_div_def)
  have "\<not> in_claimed_range 90" by (simp add: in_claimed_range_def)
  with r e perpendicular_apex perpendicular_tangent perpendicular_bearing east_apex east_tangent east_bearing
    format_90
  show ?thesis by blast
qed

section \<open>The normalised position\<close>

text \<open>
  Claim C6, as amended. For every map of positive width and height and every marker
  apex inside it (\<open>0 \<le> xpos \<le> map_width\<close> and \<open>0 \<le> ypos \<le> map_height\<close>), the two
  printed components are \<open>xpos / map_width\<close> and \<open>(map_height - ypos) / map_height\<close>, and
  both lie in \<open>[0, 1]\<close>.
\<close>

theorem position_in_unit_square:
  "0 < map_width \<Longrightarrow> 0 < map_height \<Longrightarrow>
   0 \<le> xpos \<Longrightarrow> xpos \<le> map_width \<Longrightarrow> 0 \<le> ypos \<Longrightarrow> ypos \<le> map_height \<Longrightarrow>
   position xpos ypos map_width map_height =
     (Fin (real_of_int xpos / real_of_int map_width),
      Fin (real_of_int (map_height - ypos) / real_of_int map_height)) \<and>
   in_unit (fst (position xpos ypos map_width map_height)) \<and>
   in_unit (snd (position xpos ypos map_width map_height))"
  by (simp add: position_def np_div_def Let_def)

theorem position_in_unit_square_witness:
  "(0 :: int) < 400 \<and> (0 :: int) < 600 \<and> (0 :: int) \<le> 111 \<and> (111 :: int) \<le> 400 \<and>
   (0 :: int) \<le> 389 \<and> (389 :: int) \<le> 600 \<and>
   position 111 389 400 600 = (Fin (111 / 400), Fin (211 / 600)) \<and>
   in_unit (fst (position 111 389 400 600)) \<and> in_unit (snd (position 111 389 400 600))"
  using position_in_unit_square [of 400 600 111 389] by simp

text \<open>
  The claim as the specification states it fails on a map of width 0, which its
  hypothesis admits with the apex at \<open>x = 0\<close>: the first component is \<open>0 / 0\<close>, a NaN.
\<close>

theorem position_zero_width_counterexample:
  "(0 :: int) \<le> 0 \<and> (0 :: int) \<le> 5 \<and> (5 :: int) \<le> 10 \<and>
   position 0 5 0 10 = (NaN, Fin (1 / 2)) \<and>
   \<not> in_unit (fst (position 0 5 0 10))"
  by (simp add: position_def np_div_def)

end
